theory Spec2Isabelle
  imports Main "HOL-Library.Word" "HOL-Library.Multiset" "HOL-Library.Sublist"
begin

unbundle bit_operations_syntax

section \<open>The a314d daemon: data model\<close>

text \<open>
  A shallow embedding of \<^verbatim>\<open>Software/a314d/a314d.cc\<close>.  The daemon is single threaded;
  its global variables form one record that every function takes and returns.

  \<^item> \<^verbatim>\<open>uint8_t\<close> and \<^verbatim>\<open>uint32_t\<close>/\<^verbatim>\<open>unsigned int\<close> are words; a C \<^verbatim>\<open>int\<close> that only holds
    small values is an \<open>int\<close>.
  \<^item> A \<^verbatim>\<open>std::list\<close> node has a stable address: a list of nodes is a list of pairs
    (address, contents), and an address is a \<open>ptr\<close>.  \<^verbatim>\<open>emplace_back\<close> takes the next
    address of a counter, which is never reused.  \<^verbatim>\<open>nullptr\<close> is \<open>None\<close>.
  \<^item> \<^verbatim>\<open>exit(-1)\<close> is the result \<open>Inl Exit\<close>; a dereference of an address with no node, an
    \<^verbatim>\<open>erase(end())\<close>, a \<^verbatim>\<open>front()\<close> of an empty list and a read or write outside an array
    are \<open>Inl Undefined\<close>; an environment script that has run out is \<open>Inl Stuck\<close>.
  \<^item> Record fields carry a prefix where the C++ name is used by several structs
    (\<open>pb_\<close> PacketBuffer, \<open>mb_\<close> MessageBuffer, \<open>mh_\<close> MessageHeader,
    \<open>srv_\<close> RegisteredService, \<open>tr_\<close> spi\_ioc\_transfer).
\<close>

type_synonym uint8_t = "8 word"
type_synonym uint32_t = "32 word"
type_synonym ptr = nat

datatype error = Exit | Undefined | Stuck

definition bindE :: "error + 'a \<Rightarrow> ('a \<Rightarrow> error + 'b) \<Rightarrow> error + 'b" where
  "bindE m f = (case m of Inl e \<Rightarrow> Inl e | Inr x \<Rightarrow> f x)"

lemma bindE_cong [fundef_cong]:
  "m = m' \<Longrightarrow> (\<And>x. m' = Inr x \<Longrightarrow> f x = f' x) \<Longrightarrow> bindE m f = bindE m' f'"
  by (cases m') (simp_all add: bindE_def)

subsection \<open>The macros\<close>

abbreviation (input) READ_SRAM_CMD :: "'a::zero" where "READ_SRAM_CMD \<equiv> 0"
abbreviation (input) WRITE_SRAM_CMD :: "'a::one" where "WRITE_SRAM_CMD \<equiv> 1"
abbreviation (input) READ_CMEM_CMD :: "'a::numeral" where "READ_CMEM_CMD \<equiv> 2"
abbreviation (input) WRITE_CMEM_CMD :: "'a::numeral" where "WRITE_CMEM_CMD \<equiv> 3"

abbreviation (input) READ_SRAM_HDR_LEN :: "'a::numeral" where "READ_SRAM_HDR_LEN \<equiv> 4"

abbreviation (input) R_EVENTS_ADDRESS :: "'a::numeral" where "R_EVENTS_ADDRESS \<equiv> 12"
abbreviation (input) A_EVENTS_ADDRESS :: "'a::numeral" where "A_EVENTS_ADDRESS \<equiv> 14"

abbreviation (input) R_EVENT_BASE_ADDRESS :: "'a::numeral" where "R_EVENT_BASE_ADDRESS \<equiv> 4"

abbreviation (input) A_EVENT_R2A_TAIL :: "'a::one" where "A_EVENT_R2A_TAIL \<equiv> 1"
abbreviation (input) A_EVENT_A2R_HEAD :: "'a::numeral" where "A_EVENT_A2R_HEAD \<equiv> 2"

abbreviation (input) A2R_TAIL_OFFSET :: nat where "A2R_TAIL_OFFSET \<equiv> 0"
abbreviation (input) R2A_HEAD_OFFSET :: nat where "R2A_HEAD_OFFSET \<equiv> 1"
abbreviation (input) R2A_TAIL_OFFSET :: nat where "R2A_TAIL_OFFSET \<equiv> 2"
abbreviation (input) A2R_HEAD_OFFSET :: nat where "A2R_HEAD_OFFSET \<equiv> 3"

abbreviation (input) PKT_CONNECT :: "'a::numeral" where "PKT_CONNECT \<equiv> 4"
abbreviation (input) PKT_CONNECT_RESPONSE :: "'a::numeral" where "PKT_CONNECT_RESPONSE \<equiv> 5"
abbreviation (input) PKT_DATA :: "'a::numeral" where "PKT_DATA \<equiv> 6"
abbreviation (input) PKT_EOS :: "'a::numeral" where "PKT_EOS \<equiv> 7"
abbreviation (input) PKT_RESET :: "'a::numeral" where "PKT_RESET \<equiv> 8"

abbreviation (input) CONNECT_OK :: "'a::zero" where "CONNECT_OK \<equiv> 0"
abbreviation (input) CONNECT_UNKNOWN_SERVICE :: "'a::numeral" where "CONNECT_UNKNOWN_SERVICE \<equiv> 3"

abbreviation (input) MSG_REGISTER_REQ :: "'a::one" where "MSG_REGISTER_REQ \<equiv> 1"
abbreviation (input) MSG_REGISTER_RES :: "'a::numeral" where "MSG_REGISTER_RES \<equiv> 2"
abbreviation (input) MSG_DEREGISTER_REQ :: "'a::numeral" where "MSG_DEREGISTER_REQ \<equiv> 3"
abbreviation (input) MSG_DEREGISTER_RES :: "'a::numeral" where "MSG_DEREGISTER_RES \<equiv> 4"
abbreviation (input) MSG_READ_MEM_REQ :: "'a::numeral" where "MSG_READ_MEM_REQ \<equiv> 5"
abbreviation (input) MSG_READ_MEM_RES :: "'a::numeral" where "MSG_READ_MEM_RES \<equiv> 6"
abbreviation (input) MSG_WRITE_MEM_REQ :: "'a::numeral" where "MSG_WRITE_MEM_REQ \<equiv> 7"
abbreviation (input) MSG_WRITE_MEM_RES :: "'a::numeral" where "MSG_WRITE_MEM_RES \<equiv> 8"
abbreviation (input) MSG_CONNECT :: "'a::numeral" where "MSG_CONNECT \<equiv> 9"
abbreviation (input) MSG_CONNECT_RESPONSE :: "'a::numeral" where "MSG_CONNECT_RESPONSE \<equiv> 10"
abbreviation (input) MSG_DATA :: "'a::numeral" where "MSG_DATA \<equiv> 11"
abbreviation (input) MSG_EOS :: "'a::numeral" where "MSG_EOS \<equiv> 12"
abbreviation (input) MSG_RESET :: "'a::numeral" where "MSG_RESET \<equiv> 13"

abbreviation (input) MSG_SUCCESS :: "'a::one" where "MSG_SUCCESS \<equiv> 1"
abbreviation (input) MSG_FAIL :: "'a::zero" where "MSG_FAIL \<equiv> 0"

subsection \<open>The structs\<close>

record MessageBuffer =
  mb_pos :: int
  mb_data :: "uint8_t list"

record RegisteredService =
  srv_name :: "uint8_t list"
  srv_cc :: ptr

record PacketBuffer =
  pb_type :: int
  pb_data :: "uint8_t list"

text \<open>
  \<open>header\<close> is the packed 9-byte \<^verbatim>\<open>MessageHeader\<close> as it lies in memory, byte \<open>i\<close> at
  \<open>header cc i\<close> (the read loop fills it byte by byte); \<open>header_length\<close>,
  \<open>header_stream_id\<close> and \<open>header_type\<close> read its fields on the little-endian host.
  Arrays of fixed size (\<^verbatim>\<open>channel_status\<close>, \<^verbatim>\<open>rx_buf\<close>, \<^verbatim>\<open>recv_buf\<close>) are functions from
  the index too; an index outside the array is checked where the code can reach one.
\<close>

record ClientConnection =
  fd :: int
  next_stream_id :: int
  bytes_read :: int
  header :: "nat \<Rightarrow> uint8_t"
  payload :: "uint8_t list"
  message_queue :: "MessageBuffer list"
  associations :: "ptr list"

record LogicalChannel =
  channel_id :: int
  association :: "ptr option"
  stream_id :: int
  got_eos_from_ami :: bool
  got_eos_from_client :: bool
  packet_queue :: "PacketBuffer list"

record OnDemandStart =
  service_name :: "uint8_t list"
  program :: "uint8_t list"
  arguments :: "uint8_t list list"

subsection \<open>The environment\<close>

text \<open>
  One SPI transfer: the bytes the caller placed at the start of \<^verbatim>\<open>tx_buf\<close>, and the length
  of the transfer.  What the bus answers is a script \<open>spi_rx\<close>: each transfer takes the next
  answer and copies it over the start of \<^verbatim>\<open>rx_buf\<close>.  A transfer with no answer left is an
  \<^verbatim>\<open>ioctl\<close> that failed: the code ignores the return value and goes on with the old
  \<^verbatim>\<open>rx_buf\<close>.
\<close>

record spi_ioc_transfer =
  tr_tx :: "uint8_t list"
  tr_len :: nat

datatype errno = EAGAIN | EWOULDBLOCK | ECONNRESET | EOTHER

text \<open>The result of \<^verbatim>\<open>write(2)\<close>: a count, or -1 with an errno.\<close>

datatype write_result = Written nat | WriteError errno

text \<open>The result of \<^verbatim>\<open>read(2)\<close>: the bytes read (none at end of file), or -1 with an errno.\<close>

datatype read_result = Read "uint8_t list" | ReadError errno

text \<open>
  What the system answers when \<^verbatim>\<open>handle_pkt_connect\<close> starts an on-demand service:
  whether \<^verbatim>\<open>socketpair\<close> succeeded, whether \<^verbatim>\<open>fork\<close> did (the child is another
  process: it runs \<^verbatim>\<open>execvp\<close> and is not part of this model), the descriptor
  \<^verbatim>\<open>fds[0]\<close>, and whether the two \<^verbatim>\<open>fcntl\<close> calls and \<^verbatim>\<open>epoll_ctl\<close> succeeded.
\<close>

record launch_result =
  socketpair_ok :: bool
  fork_ok :: bool
  launch_fd :: int
  fcntl_fd_ok :: bool
  fcntl_fl_ok :: bool
  epoll_ctl_ok :: bool

record daemon =
  have_base_address :: bool
  base_address :: uint32_t
  channel_status :: "nat \<Rightarrow> uint8_t"
  channel_status_updated :: uint8_t
  rx_buf :: "nat \<Rightarrow> uint8_t"
  recv_buf :: "nat \<Rightarrow> uint8_t"
  connections :: "(ptr \<times> ClientConnection) list"
  services :: "RegisteredService list"
  channels :: "(ptr \<times> LogicalChannel) list"
  send_queue :: "ptr list"
  on_demand_services :: "OnDemandStart list"
  next_ptr :: ptr
  spi_rx :: "uint8_t list list"
  spi_log :: "spi_ioc_transfer list"
  sys_write :: "write_result list"
  sys_write_log :: "(int \<times> uint8_t list) list"
  sys_read :: "read_result list"
  sys_launch :: "launch_result list"
  sys_close_log :: "int list"

subsection \<open>Nodes and pointers\<close>

definition deref :: "(ptr \<times> 'a) list \<Rightarrow> ptr \<Rightarrow> error + 'a" where
  "deref xs p = (case map_of xs p of None \<Rightarrow> Inl Undefined | Some x \<Rightarrow> Inr x)"

definition modify :: "ptr \<Rightarrow> ('a \<Rightarrow> 'a) \<Rightarrow> (ptr \<times> 'a) list \<Rightarrow> (ptr \<times> 'a) list" where
  "modify p f xs = map (\<lambda>(q, x). if q = p then (q, f x) else (q, x)) xs"

text \<open>\<^verbatim>\<open>xs.erase(std::find(xs.begin(), xs.end(), x))\<close>: undefined when \<open>x\<close> is not there.\<close>

definition erase_find :: "'a \<Rightarrow> 'a list \<Rightarrow> error + 'a list" where
  "erase_find x xs = (if x \<in> set xs then Inr (remove1 x xs) else Inl Undefined)"

text \<open>
  \<^verbatim>\<open>memcpy(dst, data, n)\<close> guarded by \<^verbatim>\<open>if (data && n)\<close> into a zero-filled vector of \<open>n\<close>
  bytes: \<open>data\<close> is the memory at the pointer (\<open>None\<close> for \<^verbatim>\<open>nullptr\<close>).
\<close>

definition copy_bytes :: "uint8_t list option \<Rightarrow> nat \<Rightarrow> error + uint8_t list" where
  "copy_bytes data n =
     (case data of
        None \<Rightarrow> Inr (replicate n 0)
      | Some d \<Rightarrow> if n = 0 then Inr [] else if n \<le> length d then Inr (take n d) else Inl Undefined)"

section \<open>The bus transport\<close>

definition transfer :: "uint8_t list \<Rightarrow> nat \<Rightarrow> daemon \<Rightarrow> daemon" where
  "transfer tx n s =
     (let s' = s\<lparr>spi_log := spi_log s @ [\<lparr>tr_tx = tx, tr_len = n\<rparr>]\<rparr>
      in case spi_rx s of
           [] \<Rightarrow> s'
         | r # rs \<Rightarrow>
             s'\<lparr>rx_buf := (\<lambda>i. if i < n \<and> i < length r then r ! i else rx_buf s i),
                spi_rx := rs\<rparr>)"

definition spi_header :: "uint32_t \<Rightarrow> uint32_t \<Rightarrow> uint8_t list" where
  "spi_header cmd address =
     (let header = push_bit 20 cmd OR (address AND 0xfffff)
      in [ucast (drop_bit 16 header AND 0xff), ucast (drop_bit 8 header AND 0xff),
          ucast (header AND 0xff)])"

definition spi_read_mem :: "uint32_t \<Rightarrow> uint32_t \<Rightarrow> daemon \<Rightarrow> daemon" where
  "spi_read_mem address len s =
     transfer (spi_header READ_SRAM_CMD address @ [0]) (unat (len + 4)) s"

definition spi_write_mem :: "uint32_t \<Rightarrow> uint8_t list \<Rightarrow> uint32_t \<Rightarrow> daemon \<Rightarrow> error + daemon" where
  "spi_write_mem address buf len s =
     (if 65536 < 3 + unat len \<or> length buf < unat len then Inl Undefined
      else Inr (transfer (spi_header WRITE_SRAM_CMD address @ take (unat len) buf)
                  (unat (len + 3)) s))"

definition spi_read_cmem :: "uint32_t \<Rightarrow> daemon \<Rightarrow> uint8_t \<times> daemon" where
  "spi_read_cmem address s =
     (let s' = transfer [ucast (push_bit 4 READ_CMEM_CMD OR (address AND 0xf)), 0] 2 s
      in (rx_buf s' 1, s'))"

definition spi_write_cmem :: "uint32_t \<Rightarrow> uint32_t \<Rightarrow> daemon \<Rightarrow> daemon" where
  "spi_write_cmem address data s =
     transfer [ucast (push_bit 4 WRITE_CMEM_CMD OR (address AND 0xf)), ucast (data AND 0xf)] 2 s"

definition spi_ack_irq :: "daemon \<Rightarrow> uint8_t \<times> daemon" where
  "spi_ack_irq s = spi_read_cmem R_EVENTS_ADDRESS s"

section \<open>The listening socket\<close>

text \<open>
  \<^verbatim>\<open>init_server_socket\<close> takes no input; what it asks of the socket API is a constant.
  The record holds the arguments of its \<^verbatim>\<open>socket\<close>, \<^verbatim>\<open>bind\<close> and \<^verbatim>\<open>listen\<close> calls: the
  address in host byte order (\<^verbatim>\<open>INADDR_ANY\<close> is 0.0.0.0, \<^verbatim>\<open>INADDR_LOOPBACK\<close> is 127.0.0.1)
  and the port before \<^verbatim>\<open>htons\<close>.
\<close>

datatype sock_domain = AF_INET | AF_UNIX
datatype sock_type = SOCK_STREAM | SOCK_DGRAM

abbreviation (input) INADDR_ANY :: uint32_t where "INADDR_ANY \<equiv> 0"
abbreviation (input) INADDR_LOOPBACK :: uint32_t where "INADDR_LOOPBACK \<equiv> 0x7f000001"

record server_socket =
  sock_family :: sock_domain
  sock_kind :: sock_type
  sin_addr :: uint32_t
  sin_port :: nat
  backlog :: nat

definition init_server_socket :: server_socket where
  "init_server_socket =
     \<lparr>sock_family = AF_INET, sock_kind = SOCK_STREAM, sin_addr = INADDR_ANY,
      sin_port = 7110, backlog = 16\<rparr>"

section \<open>The channel table\<close>

definition remove_association :: "ptr \<Rightarrow> daemon \<Rightarrow> error + daemon" where
  "remove_association p s =
     bindE (deref (channels s) p) (\<lambda>ch.
       case association ch of
         None \<Rightarrow> Inl Undefined
       | Some c \<Rightarrow>
           bindE (deref (connections s) c) (\<lambda>cc.
             bindE (erase_find p (associations cc)) (\<lambda>ass.
               Inr (s\<lparr>connections := modify c (\<lambda>cc. cc\<lparr>associations := ass\<rparr>) (connections s),
                      channels := modify p (\<lambda>ch. ch\<lparr>association := None, stream_id := 0\<rparr>)
                        (channels s)\<rparr>))))"

definition clear_packet_queue :: "ptr \<Rightarrow> daemon \<Rightarrow> error + daemon" where
  "clear_packet_queue p s =
     bindE (deref (channels s) p) (\<lambda>ch.
       if packet_queue ch \<noteq> [] then
         bindE (erase_find p (send_queue s)) (\<lambda>sq.
           Inr (s\<lparr>channels := modify p (\<lambda>ch. ch\<lparr>packet_queue := []\<rparr>) (channels s),
                  send_queue := sq\<rparr>))
       else Inr s)"

text \<open>
  The parameters \<open>type\<close> and \<open>len\<close> are \<^verbatim>\<open>uint8_t\<close>: whatever the caller passes is reduced
  modulo 256 at the call.
\<close>

definition create_and_enqueue_packet ::
  "ptr \<Rightarrow> uint8_t \<Rightarrow> uint8_t list option \<Rightarrow> uint8_t \<Rightarrow> daemon \<Rightarrow> error + daemon" where
  "create_and_enqueue_packet p type data len s =
     bindE (deref (channels s) p) (\<lambda>ch.
       bindE (copy_bytes data (unat len)) (\<lambda>bytes.
         Inr (s\<lparr>send_queue :=
                  (if packet_queue ch = [] then send_queue s @ [p] else send_queue s),
                channels :=
                  modify p (\<lambda>ch. ch\<lparr>packet_queue :=
                     packet_queue ch @ [\<lparr>pb_type = uint type, pb_data = bytes\<rparr>]\<rparr>) (channels s)\<rparr>)))"

fun remove_channel_loop :: "int \<Rightarrow> (ptr \<times> LogicalChannel) list \<Rightarrow> (ptr \<times> LogicalChannel) list" where
  "remove_channel_loop cid [] = []"
| "remove_channel_loop cid (x # xs) =
     (if channel_id (snd x) = cid
      then (if association (snd x) = None \<and> packet_queue (snd x) = [] then xs else x # xs)
      else x # remove_channel_loop cid xs)"

definition remove_channel_if_not_associated_and_empty_pq :: "int \<Rightarrow> daemon \<Rightarrow> daemon" where
  "remove_channel_if_not_associated_and_empty_pq cid s =
     s\<lparr>channels := remove_channel_loop cid (channels s)\<rparr>"

section \<open>Messages to a client\<close>

definition encode_u32 :: "uint32_t \<Rightarrow> uint8_t list" where
  "encode_u32 w = [ucast w, ucast (drop_bit 8 w), ucast (drop_bit 16 w), ucast (drop_bit 24 w)]"

definition encode_header :: "int \<Rightarrow> int \<Rightarrow> int \<Rightarrow> uint8_t list" where
  "encode_header len sid type = encode_u32 (of_int len) @ encode_u32 (of_int sid) @ [of_int type]"

text \<open>
  The \<^verbatim>\<open>while (1)\<close> of \<^verbatim>\<open>create_and_send_msg\<close>, one \<^verbatim>\<open>write\<close> per turn.  It runs on the
  script of the results of \<^verbatim>\<open>write\<close>; a count above what was asked is outside the contract
  of \<^verbatim>\<open>write\<close>.  The result says what became of the message, with the rest of the script
  and the buffers that were offered to \<^verbatim>\<open>write\<close>.
\<close>

datatype send_outcome = Sent | Queued MessageBuffer | Dropped

fun write_loop ::
  "int \<Rightarrow> MessageBuffer \<Rightarrow> write_result list
     \<Rightarrow> error + (send_outcome \<times> write_result list \<times> (int \<times> uint8_t list) list)" where
  "write_loop f mb [] = Inl Stuck"
| "write_loop f mb (r # rs) =
     (let left = int (length (mb_data mb)) - mb_pos mb;
          src = drop (nat (mb_pos mb)) (mb_data mb)
      in case r of
           WriteError e \<Rightarrow>
             if e = EAGAIN \<or> e = EWOULDBLOCK then Inr (Queued mb, rs, [(f, src)])
             else if e = ECONNRESET then Inr (Dropped, rs, [(f, src)])
             else Inl Exit
         | Written n \<Rightarrow>
             if left < int n then Inl Stuck
             else if int n = left then Inr (Sent, rs, [(f, src)])
             else bindE (write_loop f (mb\<lparr>mb_pos := mb_pos mb + int n\<rparr>) rs)
                    (\<lambda>(out, rs', log). Inr (out, rs', (f, src) # log)))"

definition create_and_send_msg ::
  "ptr \<Rightarrow> int \<Rightarrow> int \<Rightarrow> uint8_t list option \<Rightarrow> int \<Rightarrow> daemon \<Rightarrow> error + daemon" where
  "create_and_send_msg c type sid data len s =
     bindE (deref (connections s) c) (\<lambda>cc.
       if len < 0 then Inl Undefined
       else
         bindE (copy_bytes data (nat len)) (\<lambda>bytes.
           let mb = \<lparr>mb_pos = 0, mb_data = encode_header len sid type @ bytes\<rparr> in
           if message_queue cc \<noteq> [] then
             Inr (s\<lparr>connections :=
                      modify c (\<lambda>cc. cc\<lparr>message_queue := message_queue cc @ [mb]\<rparr>) (connections s)\<rparr>)
           else
             bindE (write_loop (fd cc) mb (sys_write s)) (\<lambda>(out, rs, log).
               let s1 = s\<lparr>sys_write := rs, sys_write_log := sys_write_log s @ log\<rparr> in
               case out of
                 Queued mb' \<Rightarrow>
                   Inr (s1\<lparr>connections :=
                          modify c (\<lambda>cc. cc\<lparr>message_queue := message_queue cc @ [mb']\<rparr>)
                            (connections s1)\<rparr>)
               | _ \<Rightarrow> Inr s1)))"

section \<open>The R2A ring\<close>

text \<open>Lines 1090 to 1094 of \<^verbatim>\<open>flush_send_queue\<close>: one packet as it goes into \<^verbatim>\<open>send_buf\<close>.\<close>

definition serialize_packet :: "int \<Rightarrow> PacketBuffer \<Rightarrow> uint8_t list" where
  "serialize_packet cid pb =
     [of_nat (length (pb_data pb)), of_int (pb_type pb), of_int cid] @ pb_data pb"

text \<open>
  The \<^verbatim>\<open>while (!send_queue.empty())\<close> of \<^verbatim>\<open>flush_send_queue\<close>.  \<open>send_buf\<close> is
  \<^verbatim>\<open>send_buf[0..pos)\<close>; the array has 256 bytes.
\<close>

function flush_loop :: "int \<Rightarrow> uint8_t list \<Rightarrow> daemon \<Rightarrow> error + (uint8_t list \<times> daemon)" where
  "flush_loop left send_buf s =
     (case send_queue s of
        [] \<Rightarrow> Inr (send_buf, s)
      | p # rest \<Rightarrow>
          (case map_of (channels s) p of
             None \<Rightarrow> Inl Undefined
           | Some ch \<Rightarrow>
               (case packet_queue ch of
                  [] \<Rightarrow> Inl Undefined
                | pb # pq \<Rightarrow>
                    if left < 3 + int (length (pb_data pb)) then Inr (send_buf, s)
                    else if 256 < length send_buf + 3 + length (pb_data pb) then Inl Undefined
                    else
                      flush_loop (left - (3 + int (length (pb_data pb))))
                        (send_buf @ serialize_packet (channel_id ch) pb)
                        (let s1 = s\<lparr>channels :=
                                      modify p (\<lambda>ch. ch\<lparr>packet_queue := pq\<rparr>) (channels s),
                                    send_queue := rest\<rparr>
                         in if pq \<noteq> [] then s1\<lparr>send_queue := rest @ [p]\<rparr>
                            else remove_channel_if_not_associated_and_empty_pq (channel_id ch) s1))))"
  by pat_completeness auto
termination
  by (relation "measure (\<lambda>(left, send_buf, s). nat left)") auto

definition flush_send_queue :: "daemon \<Rightarrow> error + (bool \<times> daemon)" where
  "flush_send_queue s =
     (let tail = uint (channel_status s R2A_TAIL_OFFSET);
          head = uint (channel_status s R2A_HEAD_OFFSET);
          len = (tail - head) AND 255;
          left = 255 - len
      in bindE (flush_loop left [] s) (\<lambda>(send_buf, s1).
           let to_write = int (length send_buf) in
           if to_write = 0 then Inr (False, s1)
           else
             let at_end = 256 - tail in
             bindE (if at_end < to_write
                    then bindE (spi_write_mem (base_address s1 + 260 + of_int tail) send_buf
                                  (of_int at_end) s1)
                           (\<lambda>s2. Inr (drop (nat at_end) send_buf, to_write - at_end, 0, s2))
                    else Inr (send_buf, to_write, tail, s1))
               (\<lambda>(p, to_write, tail, s2).
                  bindE (spi_write_mem (base_address s2 + 260 + of_int tail) p (of_int to_write) s2)
                    (\<lambda>s3. Inr (True,
                       s3\<lparr>channel_status := (channel_status s3)
                             (R2A_TAIL_OFFSET := of_int ((tail + to_write) AND 255)),
                          channel_status_updated :=
                            channel_status_updated s3 OR A_EVENT_R2A_TAIL\<rparr>)))))"

section \<open>Messages from a client\<close>

definition decode_u32 :: "uint8_t \<Rightarrow> uint8_t \<Rightarrow> uint8_t \<Rightarrow> uint8_t \<Rightarrow> uint32_t" where
  "decode_u32 b0 b1 b2 b3 =
     ucast b0 OR push_bit 8 (ucast b1) OR push_bit 16 (ucast b2) OR push_bit 24 (ucast b3)"

definition header_length :: "(nat \<Rightarrow> uint8_t) \<Rightarrow> uint32_t" where
  "header_length h = decode_u32 (h 0) (h 1) (h 2) (h 3)"

definition header_stream_id :: "(nat \<Rightarrow> uint8_t) \<Rightarrow> uint32_t" where
  "header_stream_id h = decode_u32 (h 4) (h 5) (h 6) (h 7)"

definition header_type :: "(nat \<Rightarrow> uint8_t) \<Rightarrow> uint8_t" where
  "header_type h = h 8"

definition handle_msg_register_req :: "ptr \<Rightarrow> daemon \<Rightarrow> error + daemon" where
  "handle_msg_register_req c s =
     bindE (deref (connections s) c) (\<lambda>cc.
       let name = payload cc in
       case find (\<lambda>srv. srv_name srv = name) (services s) of
         None \<Rightarrow>
           create_and_send_msg c MSG_REGISTER_RES 0 (Some [MSG_SUCCESS]) 1
             (s\<lparr>services := services s @ [\<lparr>srv_name = name, srv_cc = c\<rparr>]\<rparr>)
       | Some srv \<Rightarrow> create_and_send_msg c MSG_REGISTER_RES 0 (Some [MSG_FAIL]) 1 s)"

fun deregister_loop ::
  "uint8_t list \<Rightarrow> ptr \<Rightarrow> RegisteredService list \<Rightarrow> RegisteredService list \<times> uint8_t" where
  "deregister_loop n c [] = ([], MSG_FAIL)"
| "deregister_loop n c (x # xs) =
     (if srv_name x = n \<and> srv_cc x = c then (xs, MSG_SUCCESS)
      else (x # fst (deregister_loop n c xs), snd (deregister_loop n c xs)))"

definition handle_msg_deregister_req :: "ptr \<Rightarrow> daemon \<Rightarrow> error + daemon" where
  "handle_msg_deregister_req c s =
     bindE (deref (connections s) c) (\<lambda>cc.
       let (srvs, result) = deregister_loop (payload cc) c (services s)
       in create_and_send_msg c MSG_DEREGISTER_RES 0 (Some [result]) 1 (s\<lparr>services := srvs\<rparr>))"

text \<open>
  The two memory requests read their arguments from the payload without a check of its
  size, and answer from \<^verbatim>\<open>rx_buf\<close>, which has 65536 bytes.
\<close>

definition rx_buf_from :: "nat \<Rightarrow> daemon \<Rightarrow> uint8_t list" where
  "rx_buf_from off s = map (rx_buf s) [off..<65536]"

definition handle_msg_read_mem_req :: "ptr \<Rightarrow> daemon \<Rightarrow> error + daemon" where
  "handle_msg_read_mem_req c s =
     bindE (deref (connections s) c) (\<lambda>cc.
       if length (payload cc) < 8 then Inl Undefined
       else
         let address = decode_u32 (payload cc ! 0) (payload cc ! 1) (payload cc ! 2) (payload cc ! 3);
             len = decode_u32 (payload cc ! 4) (payload cc ! 5) (payload cc ! 6) (payload cc ! 7);
             s1 = spi_read_mem address len s
         in create_and_send_msg c MSG_READ_MEM_RES 0 (Some (rx_buf_from READ_SRAM_HDR_LEN s1))
              (sint len) s1)"

definition handle_msg_write_mem_req :: "ptr \<Rightarrow> daemon \<Rightarrow> error + daemon" where
  "handle_msg_write_mem_req c s =
     bindE (deref (connections s) c) (\<lambda>cc.
       if length (payload cc) < 4 then Inl Undefined
       else
         let address = decode_u32 (payload cc ! 0) (payload cc ! 1) (payload cc ! 2) (payload cc ! 3);
             len = of_nat (length (payload cc)) - 4
         in bindE (spi_write_mem address (drop 4 (payload cc)) len s)
              (create_and_send_msg c MSG_WRITE_MEM_RES 0 None 0))"

fun get_associated_channel_loop ::
  "(ptr \<times> LogicalChannel) list \<Rightarrow> int \<Rightarrow> ptr list \<Rightarrow> error + ptr option" where
  "get_associated_channel_loop chs sid [] = Inr None"
| "get_associated_channel_loop chs sid (p # ps) =
     bindE (deref chs p) (\<lambda>ch.
       if stream_id ch = sid then Inr (Some p) else get_associated_channel_loop chs sid ps)"

definition get_associated_channel_by_stream_id ::
  "ClientConnection \<Rightarrow> int \<Rightarrow> daemon \<Rightarrow> error + ptr option" where
  "get_associated_channel_by_stream_id cc sid s =
     get_associated_channel_loop (channels s) sid (associations cc)"

definition handle_msg_connect :: "ptr \<Rightarrow> daemon \<Rightarrow> error + daemon" where
  "handle_msg_connect c s = Inr s"

definition handle_msg_connect_response :: "ptr \<Rightarrow> daemon \<Rightarrow> error + daemon" where
  "handle_msg_connect_response c s =
     bindE (deref (connections s) c) (\<lambda>cc.
       bindE (get_associated_channel_by_stream_id cc (sint (header_stream_id (header cc))) s)
         (\<lambda>found. case found of
            None \<Rightarrow> Inr s
          | Some p \<Rightarrow>
              bindE (create_and_enqueue_packet p PKT_CONNECT_RESPONSE (Some (payload cc))
                       (of_nat (length (payload cc))) s)
                (\<lambda>s1. case payload cc of
                         [] \<Rightarrow> Inl Undefined
                       | b # _ \<Rightarrow> if b \<noteq> CONNECT_OK then remove_association p s1 else Inr s1)))"

definition handle_msg_data :: "ptr \<Rightarrow> daemon \<Rightarrow> error + daemon" where
  "handle_msg_data c s =
     bindE (deref (connections s) c) (\<lambda>cc.
       bindE (get_associated_channel_by_stream_id cc (sint (header_stream_id (header cc))) s)
         (\<lambda>found. case found of
            None \<Rightarrow> Inr s
          | Some p \<Rightarrow>
              create_and_enqueue_packet p PKT_DATA (Some (payload cc))
                (ucast (header_length (header cc))) s))"

definition handle_msg_eos :: "ptr \<Rightarrow> daemon \<Rightarrow> error + daemon" where
  "handle_msg_eos c s =
     bindE (deref (connections s) c) (\<lambda>cc.
       bindE (get_associated_channel_by_stream_id cc (sint (header_stream_id (header cc))) s)
         (\<lambda>found. case found of
            None \<Rightarrow> Inr s
          | Some p \<Rightarrow>
              bindE (deref (channels s) p) (\<lambda>ch.
                if got_eos_from_client ch then Inr s
                else
                  bindE (create_and_enqueue_packet p PKT_EOS None 0
                           (s\<lparr>channels :=
                                modify p (\<lambda>ch. ch\<lparr>got_eos_from_client := True\<rparr>) (channels s)\<rparr>))
                    (\<lambda>s1. if got_eos_from_ami ch then remove_association p s1 else Inr s1))))"

definition handle_msg_reset :: "ptr \<Rightarrow> daemon \<Rightarrow> error + daemon" where
  "handle_msg_reset c s =
     bindE (deref (connections s) c) (\<lambda>cc.
       bindE (get_associated_channel_by_stream_id cc (sint (header_stream_id (header cc))) s)
         (\<lambda>found. case found of
            None \<Rightarrow> Inr s
          | Some p \<Rightarrow>
              bindE (remove_association p s) (\<lambda>s1.
                bindE (clear_packet_queue p s1) (create_and_enqueue_packet p PKT_RESET None 0))))"

definition handle_received_message :: "ptr \<Rightarrow> daemon \<Rightarrow> error + daemon" where
  "handle_received_message c s =
     bindE (deref (connections s) c) (\<lambda>cc.
       let type = header_type (header cc) in
       if type = MSG_REGISTER_REQ then handle_msg_register_req c s
       else if type = MSG_DEREGISTER_REQ then handle_msg_deregister_req c s
       else if type = MSG_READ_MEM_REQ then handle_msg_read_mem_req c s
       else if type = MSG_WRITE_MEM_REQ then handle_msg_write_mem_req c s
       else if type = MSG_CONNECT then handle_msg_connect c s
       else if type = MSG_CONNECT_RESPONSE then handle_msg_connect_response c s
       else if type = MSG_DATA then handle_msg_data c s
       else if type = MSG_EOS then handle_msg_eos c s
       else if type = MSG_RESET then handle_msg_reset c s
       else Inr s)"

section \<open>Closing a client connection\<close>

text \<open>
  The loop over \<^verbatim>\<open>cc->associations\<close>: each turn takes the first association, resets its
  channel and erases it from the list.
\<close>

fun close_associations_loop :: "ptr \<Rightarrow> ptr list \<Rightarrow> daemon \<Rightarrow> error + daemon" where
  "close_associations_loop c [] s = Inr s"
| "close_associations_loop c (p # ps) s =
     bindE (clear_packet_queue p s) (\<lambda>s1.
       bindE (create_and_enqueue_packet p PKT_RESET None 0 s1) (\<lambda>s2.
         close_associations_loop c ps
           (s2\<lparr>channels := modify p (\<lambda>ch. ch\<lparr>association := None, stream_id := 0\<rparr>) (channels s2),
               connections := modify c (\<lambda>cc. cc\<lparr>associations := ps\<rparr>) (connections s2)\<rparr>)))"

definition close_and_remove_connection :: "ptr \<Rightarrow> daemon \<Rightarrow> error + daemon" where
  "close_and_remove_connection c s =
     bindE (deref (connections s) c) (\<lambda>cc.
       bindE (close_associations_loop c (associations cc)
                (s\<lparr>sys_close_log := sys_close_log s @ [fd cc],
                   services := filter (\<lambda>srv. srv_cc srv \<noteq> c) (services s)\<rparr>))
         (\<lambda>s1. Inr (s1\<lparr>connections := filter (\<lambda>x. fst x \<noteq> c) (connections s1)\<rparr>)))"

section \<open>Packets from the peer\<close>

definition find_channel :: "int \<Rightarrow> daemon \<Rightarrow> (ptr \<times> LogicalChannel) option" where
  "find_channel cid s = find (\<lambda>x. channel_id (snd x) = cid) (channels s)"

text \<open>
  The tail of both branches of \<^verbatim>\<open>handle_pkt_connect\<close> that find a client: associate the
  new channel \<open>p\<close> with the connection \<open>c\<close> and send \<^verbatim>\<open>MSG_CONNECT\<close>.  \<^verbatim>\<open>next_stream_id\<close>
  is a signed \<^verbatim>\<open>int\<close>: its overflow is undefined.
\<close>

definition associate_and_notify ::
  "ptr \<Rightarrow> ptr \<Rightarrow> uint8_t list \<Rightarrow> int \<Rightarrow> daemon \<Rightarrow> error + daemon" where
  "associate_and_notify p c data plen s =
     bindE (deref (connections s) c) (\<lambda>cc.
       if 2147483647 < next_stream_id cc + 2 then Inl Undefined
       else
         create_and_send_msg c MSG_CONNECT (next_stream_id cc) (Some data) plen
           (s\<lparr>channels :=
                modify p (\<lambda>ch. ch\<lparr>association := Some c, stream_id := next_stream_id cc\<rparr>)
                  (channels s),
              connections :=
                modify c (\<lambda>cc. cc\<lparr>next_stream_id := next_stream_id cc + 2,
                                   associations := associations cc @ [p]\<rparr>) (connections s)\<rparr>))"

definition new_connection :: "int \<Rightarrow> ClientConnection" where
  "new_connection f =
     \<lparr>fd = f, next_stream_id = 1, bytes_read = 0, header = (\<lambda>i. 0), payload = [],
      message_queue = [], associations = []\<rparr>"

definition handle_pkt_connect :: "int \<Rightarrow> uint8_t list \<Rightarrow> int \<Rightarrow> daemon \<Rightarrow> error + daemon" where
  "handle_pkt_connect cid data plen s =
     (if find_channel cid s \<noteq> None then Inl Exit
      else if plen < 0 \<or> int (length data) < plen then Inl Undefined
      else
        let p = next_ptr s;
            ch = \<lparr>channel_id = cid, association = None, stream_id = 0,
                  got_eos_from_ami = False, got_eos_from_client = False, packet_queue = []\<rparr>;
            s1 = s\<lparr>channels := channels s @ [(p, ch)], next_ptr := Suc p\<rparr>;
            name = take (nat plen) data
        in case find (\<lambda>srv. srv_name srv = name) (services s1) of
             Some srv \<Rightarrow> associate_and_notify p (srv_cc srv) data plen s1
           | None \<Rightarrow>
               (case find (\<lambda>e. service_name e = name) (on_demand_services s1) of
                  Some on_demand \<Rightarrow>
                    (case sys_launch s1 of
                       [] \<Rightarrow> Inl Stuck
                     | r # rs \<Rightarrow>
                         if \<not> socketpair_ok r \<or> \<not> fork_ok r \<or> \<not> fcntl_fd_ok r
                            \<or> \<not> fcntl_fl_ok r \<or> \<not> epoll_ctl_ok r
                         then Inl Exit
                         else
                           let c = next_ptr s1;
                               s2 = s1\<lparr>sys_launch := rs,
                                       connections :=
                                         connections s1 @ [(c, new_connection (launch_fd r))],
                                       next_ptr := Suc c,
                                       services :=
                                         services s1 @ [\<lparr>srv_name = name, srv_cc = c\<rparr>]\<rparr>
                           in associate_and_notify p c data plen s2)
                | None \<Rightarrow>
                    create_and_enqueue_packet p PKT_CONNECT_RESPONSE
                      (Some [CONNECT_UNKNOWN_SERVICE]) 1 s1))"

definition handle_pkt_data :: "int \<Rightarrow> uint8_t list \<Rightarrow> int \<Rightarrow> daemon \<Rightarrow> error + daemon" where
  "handle_pkt_data cid data plen s =
     (case find_channel cid s of
        None \<Rightarrow> Inr s
      | Some (p, ch) \<Rightarrow>
          (case association ch of
             Some c \<Rightarrow>
               if \<not> got_eos_from_ami ch
               then create_and_send_msg c MSG_DATA (stream_id ch) (Some data) plen s
               else Inr s
           | None \<Rightarrow> Inr s))"

definition handle_pkt_eos :: "int \<Rightarrow> daemon \<Rightarrow> error + daemon" where
  "handle_pkt_eos cid s =
     (case find_channel cid s of
        None \<Rightarrow> Inr s
      | Some (p, ch) \<Rightarrow>
          (case association ch of
             Some c \<Rightarrow>
               if \<not> got_eos_from_ami ch
               then
                 bindE (create_and_send_msg c MSG_EOS (stream_id ch) None 0
                          (s\<lparr>channels :=
                               modify p (\<lambda>ch. ch\<lparr>got_eos_from_ami := True\<rparr>) (channels s)\<rparr>))
                   (\<lambda>s1. if got_eos_from_client ch then remove_association p s1 else Inr s1)
               else Inr s
           | None \<Rightarrow> Inr s))"

definition handle_pkt_reset :: "int \<Rightarrow> daemon \<Rightarrow> error + daemon" where
  "handle_pkt_reset cid s =
     (case find_channel cid s of
        None \<Rightarrow> Inr s
      | Some (p, ch) \<Rightarrow>
          bindE (clear_packet_queue p s) (\<lambda>s1.
            case association ch of
              Some c \<Rightarrow>
                bindE (create_and_send_msg c MSG_RESET (stream_id ch) None 0 s1)
                  (remove_association p)
            | None \<Rightarrow> Inr s1))"

definition handle_received_pkt ::
  "int \<Rightarrow> int \<Rightarrow> uint8_t list \<Rightarrow> int \<Rightarrow> daemon \<Rightarrow> error + daemon" where
  "handle_received_pkt ptype cid data plen s =
     bindE (if ptype = PKT_CONNECT then handle_pkt_connect cid data plen s
            else if ptype = PKT_DATA then handle_pkt_data cid data plen s
            else if ptype = PKT_EOS then handle_pkt_eos cid s
            else if ptype = PKT_RESET then handle_pkt_reset cid s
            else Inr s)
       (\<lambda>s1. Inr (remove_channel_if_not_associated_and_empty_pq cid s1))"

section \<open>The A2R ring\<close>

text \<open>
  The \<^verbatim>\<open>while (p < recv_buf + len)\<close> of \<^verbatim>\<open>receive_from_a2r\<close>; \<open>p\<close> is the offset into
  \<^verbatim>\<open>recv_buf\<close>, which has 256 bytes.  The handler gets the memory from the payload to
  the end of the array.
\<close>

definition recv_buf_from :: "nat \<Rightarrow> daemon \<Rightarrow> uint8_t list" where
  "recv_buf_from off s = map (recv_buf s) [off..<256]"

function decode_loop :: "nat \<Rightarrow> nat \<Rightarrow> daemon \<Rightarrow> error + daemon" where
  "decode_loop p len s =
     (if p < len then
        (if 256 \<le> p + 2 then Inl Undefined
         else
           bindE (handle_received_pkt (uint (recv_buf s (p + 1))) (uint (recv_buf s (p + 2)))
                    (recv_buf_from (p + 3) s) (uint (recv_buf s p)) s)
             (\<lambda>s1. decode_loop (p + 3 + unat (recv_buf s p)) len s1))
      else Inr s)"
  by pat_completeness auto
termination
  by (relation "measure (\<lambda>(p, len, s). len - p)") auto

definition receive_from_a2r :: "daemon \<Rightarrow> error + (bool \<times> daemon)" where
  "receive_from_a2r s =
     (let head = uint (channel_status s A2R_HEAD_OFFSET);
          tail = uint (channel_status s A2R_TAIL_OFFSET);
          len = (tail - head) AND 255
      in if len = 0 then Inr (False, s)
         else
           let s2 =
             (if head < tail then
                let s1 = spi_read_mem (base_address s + 4 + of_int head) (of_int (tail - head)) s
                in s1\<lparr>recv_buf := (\<lambda>i. if i < nat len then rx_buf s1 (READ_SRAM_HDR_LEN + i)
                                         else recv_buf s1 i)\<rparr>
              else
                let s0 = spi_read_mem (base_address s + 4 + of_int head) (of_int (256 - head)) s;
                    s1 = s0\<lparr>recv_buf := (\<lambda>i. if i < nat (256 - head)
                                              then rx_buf s0 (READ_SRAM_HDR_LEN + i)
                                              else recv_buf s0 i)\<rparr>
                in if tail \<noteq> 0 then
                     let s1' = spi_read_mem (base_address s1 + 4) (of_int tail) s1
                     in s1'\<lparr>recv_buf :=
                             (\<lambda>i. if nat (len - tail) \<le> i \<and> i < nat (len - tail) + nat tail
                                  then rx_buf s1' (READ_SRAM_HDR_LEN + (i - nat (len - tail)))
                                  else recv_buf s1' i)\<rparr>
                   else s1)
           in bindE (decode_loop 0 (nat len) s2) (\<lambda>s3.
                Inr (True,
                  s3\<lparr>channel_status :=
                       (channel_status s3)(A2R_HEAD_OFFSET := channel_status s3 A2R_TAIL_OFFSET),
                     channel_status_updated := channel_status_updated s3 OR A_EVENT_A2R_HEAD\<rparr>)))"

section \<open>The communication area\<close>

fun read_cmem_nibbles :: "nat list \<Rightarrow> uint32_t \<Rightarrow> daemon \<Rightarrow> uint32_t \<times> daemon" where
  "read_cmem_nibbles [] ba s = (ba, s)"
| "read_cmem_nibbles (i # is) ba s =
     (let (v, s1) = spi_read_cmem (of_nat i) s
      in read_cmem_nibbles is (ba OR push_bit (i * 4) (ucast v)) s1)"

definition read_base_address :: "daemon \<Rightarrow> daemon" where
  "read_base_address s =
     (let (ba1, s1) = read_cmem_nibbles [0, 1, 2, 3, 4] 0 (s\<lparr>have_base_address := False\<rparr>)
      in if ba1 AND 1 = 1 then
           let (ba2, s2) = read_cmem_nibbles [0, 1, 2, 3, 4] 0 s1
           in if ba1 = ba2 then s2\<lparr>have_base_address := True, base_address := ba1 AND NOT 1\<rparr>
              else s2
         else s1)"

definition read_channel_status :: "daemon \<Rightarrow> daemon" where
  "read_channel_status s =
     (let s1 = spi_read_mem (base_address s) 4 s
      in s1\<lparr>channel_status := (\<lambda>i. if i < 4 then rx_buf s1 (READ_SRAM_HDR_LEN + i)
                                    else channel_status s1 i),
            channel_status_updated := 0\<rparr>)"

definition write_channel_status :: "daemon \<Rightarrow> error + daemon" where
  "write_channel_status s =
     (if channel_status_updated s \<noteq> 0 then
        bindE (spi_write_mem (base_address s + 2)
                 [channel_status s R2A_TAIL_OFFSET, channel_status s A2R_HEAD_OFFSET] 2 s)
          (\<lambda>s1. Inr ((spi_write_cmem A_EVENTS_ADDRESS (ucast (channel_status_updated s1)) s1)
                        \<lparr>channel_status_updated := 0\<rparr>))
      else Inr s)"

text \<open>
  One turn of the loop of \<^verbatim>\<open>close_all_logical_channels\<close> up to its last statement: the
  channel at \<open>p\<close> is told apart from its client.  The last statement,
  \<^verbatim>\<open>channels.erase(it)\<close>, is in \<open>close_channels_loop\<close>.
\<close>

definition reset_channel_association :: "ptr \<Rightarrow> daemon \<Rightarrow> error + daemon" where
  "reset_channel_association p s =
     bindE (deref (channels s) p) (\<lambda>ch.
       case association ch of
         Some c \<Rightarrow>
           bindE (create_and_send_msg c MSG_RESET (stream_id ch) None 0 s) (remove_association p)
       | None \<Rightarrow> Inr s)"

fun close_channels_loop :: "ptr list \<Rightarrow> daemon \<Rightarrow> error + daemon" where
  "close_channels_loop [] s = Inr s"
| "close_channels_loop (p # ps) s =
     bindE (reset_channel_association p s) (\<lambda>s1.
       close_channels_loop ps (s1\<lparr>channels := filter (\<lambda>x. fst x \<noteq> p) (channels s1)\<rparr>))"

definition close_all_logical_channels :: "daemon \<Rightarrow> error + daemon" where
  "close_all_logical_channels s =
     close_channels_loop (map fst (channels s)) (s\<lparr>send_queue := []\<rparr>)"

definition handle_a314_irq :: "daemon \<Rightarrow> error + daemon" where
  "handle_a314_irq s =
     (let (events, s1) = spi_ack_irq s
      in if events = 0 then Inr s1
         else
           bindE (if events AND R_EVENT_BASE_ADDRESS \<noteq> 0 \<or> \<not> have_base_address s1
                  then bindE (close_all_logical_channels s1) (\<lambda>s2. Inr (read_base_address s2))
                  else Inr s1)
             (\<lambda>s3. if \<not> have_base_address s3 then Inr s3
                   else
                     bindE (receive_from_a2r (read_channel_status s3)) (\<lambda>(any_rcvd, s5).
                       bindE (flush_send_queue s5) (\<lambda>(any_sent, s6).
                         if any_rcvd \<or> any_sent then write_channel_status s6 else Inr s6))))"

section \<open>Events on a client connection\<close>

record epoll_events =
  EPOLLERR :: bool
  EPOLLIN :: bool
  EPOLLOUT :: bool

text \<open>
  \<^verbatim>\<open>read(cc->fd, dst, left)\<close> stores the bytes at \<^verbatim>\<open>dst\<close>: into the header at offset
  \<^verbatim>\<open>bytes_read\<close> while the payload is empty, into the payload otherwise.
\<close>

definition store_read :: "uint8_t list \<Rightarrow> ClientConnection \<Rightarrow> ClientConnection" where
  "store_read bytes cc =
     (let at = nat (bytes_read cc); n = length bytes in
      if payload cc = [] then
        cc\<lparr>header := (\<lambda>i. if at \<le> i \<and> i < at + n then bytes ! (i - at) else header cc i)\<rparr>
      else cc\<lparr>payload := take at (payload cc) @ bytes @ drop (at + n) (payload cc)\<rparr>)"

text \<open>
  The \<^verbatim>\<open>while (1)\<close> under \<^verbatim>\<open>EPOLLIN\<close>, one \<^verbatim>\<open>read\<close> per turn, on the script of the results
  of \<^verbatim>\<open>read\<close>.  The flag of the result says that the connection was closed and
  removed (the \<^verbatim>\<open>return\<close> in the loop).  A payload of 2 GiB or more cannot be allocated:
  \<^verbatim>\<open>resize\<close> throws, nothing catches it, and the process ends.
\<close>

fun read_loop :: "ptr \<Rightarrow> read_result list \<Rightarrow> daemon \<Rightarrow> error + (bool \<times> read_result list \<times> daemon)" where
  "read_loop c [] s = Inl Stuck"
| "read_loop c (r # rs) s =
     bindE (deref (connections s) c) (\<lambda>cc.
       let left = (if payload cc = [] then 9 - bytes_read cc
                   else uint (header_length (header cc)) - bytes_read cc)
       in case r of
            ReadError e \<Rightarrow> if e = EAGAIN \<or> e = EWOULDBLOCK then Inr (False, rs, s) else Inl Exit
          | Read bytes \<Rightarrow>
              if bytes = [] then
                bindE (close_and_remove_connection c s) (\<lambda>s1. Inr (True, rs, s1))
              else if left < int (length bytes) then Inl Stuck
              else
                let cc1 = (store_read bytes cc)\<lparr>bytes_read := bytes_read cc + int (length bytes)\<rparr>;
                    s1 = s\<lparr>connections := modify c (\<lambda>_. cc1) (connections s)\<rparr>
                in if left - int (length bytes) \<noteq> 0 then read_loop c rs s1
                   else
                     bindE (if payload cc1 = [] then
                              (if header_length (header cc1) = 0 then handle_received_message c s1
                               else if 2147483648 \<le> uint (header_length (header cc1)) then Inl Exit
                               else Inr (s1\<lparr>connections :=
                                           modify c (\<lambda>cc. cc\<lparr>payload :=
                                               replicate (unat (header_length (header cc))) 0\<rparr>)
                                             (connections s1)\<rparr>))
                            else
                              bindE (handle_received_message c s1) (\<lambda>s2.
                                Inr (s2\<lparr>connections :=
                                        modify c (\<lambda>cc. cc\<lparr>payload := []\<rparr>) (connections s2)\<rparr>)))
                       (\<lambda>s3. read_loop c rs
                               (s3\<lparr>connections :=
                                    modify c (\<lambda>cc. cc\<lparr>bytes_read := 0\<rparr>) (connections s3)\<rparr>)))"

text \<open>
  The \<^verbatim>\<open>while (!cc->message_queue.empty())\<close> under \<^verbatim>\<open>EPOLLOUT\<close>, one \<^verbatim>\<open>write\<close> per turn,
  on the script of the results of \<^verbatim>\<open>write\<close>.
\<close>

fun drain_loop :: "ptr \<Rightarrow> write_result list \<Rightarrow> daemon \<Rightarrow> error + (write_result list \<times> daemon)" where
  "drain_loop c [] s =
     bindE (deref (connections s) c) (\<lambda>cc.
       if message_queue cc = [] then Inr ([], s) else Inl Stuck)"
| "drain_loop c (r # rs) s =
     bindE (deref (connections s) c) (\<lambda>cc.
       case message_queue cc of
         [] \<Rightarrow> Inr (r # rs, s)
       | mb # mq \<Rightarrow>
           let left = int (length (mb_data mb)) - mb_pos mb;
               s0 = s\<lparr>sys_write_log :=
                       sys_write_log s @ [(fd cc, drop (nat (mb_pos mb)) (mb_data mb))]\<rparr>
           in case r of
                WriteError e \<Rightarrow>
                  if e = EAGAIN \<or> e = EWOULDBLOCK then Inr (rs, s0)
                  else if e = ECONNRESET then
                    bindE (close_and_remove_connection c s0) (\<lambda>s1. Inr (rs, s1))
                  else Inl Exit
              | Written n \<Rightarrow>
                  if left < int n then Inl Stuck
                  else
                    drain_loop c rs
                      (s0\<lparr>connections :=
                           modify c (\<lambda>cc. cc\<lparr>message_queue :=
                               (if int n = left then mq
                                else mb\<lparr>mb_pos := mb_pos mb + int n\<rparr> # mq)\<rparr>)
                             (connections s0)\<rparr>))"

definition handle_client_connection_event :: "ptr \<Rightarrow> epoll_events \<Rightarrow> daemon \<Rightarrow> error + daemon" where
  "handle_client_connection_event c ev s =
     (if EPOLLERR ev then close_and_remove_connection c s
      else
        bindE (if EPOLLIN ev then
                 bindE (read_loop c (sys_read s) s) (\<lambda>(closed, rs, s1).
                   Inr (closed, s1\<lparr>sys_read := rs\<rparr>))
               else Inr (False, s))
          (\<lambda>(closed, s2).
             if closed then Inr s2
             else if EPOLLOUT ev then
               bindE (drain_loop c (sys_write s2) s2) (\<lambda>(ws, s3). Inr (s3\<lparr>sys_write := ws\<rparr>))
             else Inr s2))"

section \<open>New connections and the main loop\<close>

text \<open>
  \<^verbatim>\<open>handle_server_socket_ready\<close>: the descriptor \<^verbatim>\<open>accept\<close> returned (negative on
  failure) and whether the two \<^verbatim>\<open>fcntl\<close> calls and \<^verbatim>\<open>epoll_ctl\<close> succeeded.
\<close>

definition handle_server_socket_ready ::
  "int \<Rightarrow> bool \<Rightarrow> bool \<Rightarrow> bool \<Rightarrow> daemon \<Rightarrow> error + daemon" where
  "handle_server_socket_ready f fcntl_fd fcntl_fl epoll_ok s =
     (if f < 0 then Inl Exit
      else if \<not> fcntl_fd then Inl Exit
      else if \<not> fcntl_fl then Inl Exit
      else if \<not> epoll_ok then Inl Exit
      else Inr (s\<lparr>connections := connections s @ [(next_ptr s, new_connection f)],
                  next_ptr := Suc (next_ptr s)\<rparr>))"

text \<open>\<^verbatim>\<open>while (!connections.empty()) close_and_remove_connection(&connections.front())\<close>.\<close>

fun close_connections_loop :: "ptr list \<Rightarrow> daemon \<Rightarrow> error + daemon" where
  "close_connections_loop [] s = Inr s"
| "close_connections_loop (c # cs) s = bindE (close_and_remove_connection c s) (close_connections_loop cs)"

definition flush_and_write_status :: "daemon \<Rightarrow> error + daemon" where
  "flush_and_write_status s =
     bindE (flush_send_queue s) (\<lambda>(any_sent, s1).
       if any_sent then write_channel_status s1 else Inr s1)"

text \<open>
  What \<^verbatim>\<open>epoll_pwait\<close> reports to one turn of \<^verbatim>\<open>main_loop\<close>: \<^verbatim>\<open>EINTR\<close> (the SIGTERM), a
  timeout, the GPIO (with whether the one byte could be read), the listening socket
  (with the results of \<^verbatim>\<open>handle_server_socket_ready\<close>'s system calls), or a client
  descriptor with its events.
\<close>

datatype wakeup =
    Interrupted
  | WaitFailed
  | Timeout
  | GpioReady bool
  | ServerReady int bool bool bool
  | ClientReady int epoll_events

text \<open>The local variables of \<^verbatim>\<open>main_loop\<close> (\<open>is_done\<close> is \<^verbatim>\<open>done\<close>) and the globals.\<close>

record main_loop_state =
  first_gpio_event :: bool
  shutting_down :: bool
  is_done :: bool
  globals :: daemon

definition main_loop_turn :: "wakeup \<Rightarrow> main_loop_state \<Rightarrow> error + main_loop_state" where
  "main_loop_turn w m =
     (case w of
        Interrupted \<Rightarrow>
          bindE (close_connections_loop (map fst (connections (globals m))) (globals m)) (\<lambda>s1.
            bindE (flush_and_write_status s1) (\<lambda>s2.
              Inr (if channels s2 \<noteq> [] then m\<lparr>shutting_down := True, globals := s2\<rparr>
                   else m\<lparr>is_done := True, globals := s2\<rparr>)))
      | WaitFailed \<Rightarrow> Inl Exit
      | Timeout \<Rightarrow> if shutting_down m then Inr (m\<lparr>is_done := True\<rparr>) else Inl Exit
      | GpioReady ok \<Rightarrow>
          if \<not> ok then Inl Exit
          else if first_gpio_event m then Inr (m\<lparr>first_gpio_event := False\<rparr>)
          else
            bindE (handle_a314_irq (globals m)) (\<lambda>s1.
              Inr (if shutting_down m \<and> channels s1 = [] then m\<lparr>is_done := True, globals := s1\<rparr>
                   else m\<lparr>globals := s1\<rparr>))
      | ServerReady f fcntl_fd fcntl_fl epoll_ok \<Rightarrow>
          bindE (handle_server_socket_ready f fcntl_fd fcntl_fl epoll_ok (globals m))
            (\<lambda>s1. Inr (m\<lparr>globals := s1\<rparr>))
      | ClientReady f ev \<Rightarrow>
          (case find (\<lambda>x. fd (snd x) = f) (connections (globals m)) of
             None \<Rightarrow> Inl Exit
           | Some (c, cc) \<Rightarrow>
               bindE (handle_client_connection_event c ev (globals m)) (\<lambda>s1.
                 bindE (flush_and_write_status s1) (\<lambda>s2. Inr (m\<lparr>globals := s2\<rparr>)))))"

text \<open>
  The daemon as a transition system.  \<^verbatim>\<open>main\<close> loads the configuration, and \<^verbatim>\<open>main_loop\<close>
  calls \<^verbatim>\<open>handle_a314_irq\<close> once before its first turn; static variables start at zero.
  Between two turns the environment may hold any answers for the system calls to come.
\<close>

definition initial_daemon :: "OnDemandStart list \<Rightarrow> daemon" where
  "initial_daemon cfg =
     \<lparr>have_base_address = False, base_address = 0, channel_status = (\<lambda>i. 0),
      channel_status_updated = 0, rx_buf = (\<lambda>i. 0), recv_buf = (\<lambda>i. 0), connections = [],
      services = [], channels = [], send_queue = [], on_demand_services = cfg, next_ptr = 0,
      spi_rx = [], spi_log = [], sys_write = [], sys_write_log = [], sys_read = [],
      sys_launch = [], sys_close_log = []\<rparr>"

definition environment ::
  "uint8_t list list \<Rightarrow> write_result list \<Rightarrow> read_result list \<Rightarrow> launch_result list
     \<Rightarrow> daemon \<Rightarrow> daemon" where
  "environment a b c d s = s\<lparr>spi_rx := a, sys_write := b, sys_read := c, sys_launch := d\<rparr>"

inductive reachable :: "main_loop_state \<Rightarrow> bool" where
  start:
    "handle_a314_irq (environment a b c d (initial_daemon cfg)) = Inr s \<Longrightarrow>
     reachable \<lparr>first_gpio_event = True, shutting_down = False, is_done = False, globals = s\<rparr>"
| turn:
    "reachable m \<Longrightarrow> \<not> is_done m \<Longrightarrow> main_loop_turn w m = Inr m' \<Longrightarrow> reachable m'"
| answers:
    "reachable m \<Longrightarrow> reachable (m\<lparr>globals := environment a b c d (globals m)\<rparr>)"

section \<open>Properties: what the claims speak of\<close>

text \<open>
  The send queue of a state is in order when no channel stands in it twice and every
  channel in it is a live node with a packet to send.
\<close>

definition send_queue_ok :: "daemon \<Rightarrow> bool" where
  "send_queue_ok s \<longleftrightarrow>
     distinct (send_queue s) \<and>
     (\<forall>p \<in> set (send_queue s). \<exists>ch. map_of (channels s) p = Some ch \<and> packet_queue ch \<noteq> [])"

text \<open>The nodes of the channel list have different addresses, all handed out already.\<close>

definition channels_ok :: "daemon \<Rightarrow> bool" where
  "channels_ok s \<longleftrightarrow>
     distinct (map fst (channels s)) \<and> (\<forall>p \<in> set (map fst (channels s)). p < next_ptr s)"

text \<open>The packet \<^verbatim>\<open>send_queue.front()->packet_queue.front()\<close> with the id of its channel.\<close>

definition front_packet :: "daemon \<Rightarrow> (int \<times> PacketBuffer) option" where
  "front_packet s =
     (case send_queue s of
        [] \<Rightarrow> None
      | p # rest \<Rightarrow>
          (case map_of (channels s) p of
             None \<Rightarrow> None
           | Some ch \<Rightarrow> (case packet_queue ch of [] \<Rightarrow> None | pb # pq \<Rightarrow> Some (channel_id ch, pb))))"

definition serialize_all :: "(int \<times> PacketBuffer) list \<Rightarrow> uint8_t list" where
  "serialize_all sent = concat (map (\<lambda>(cid, pb). serialize_packet cid pb) sent)"

text \<open>All queued packets of all channels, each with the id of its channel.\<close>

definition pending_list :: "(ptr \<times> LogicalChannel) list \<Rightarrow> (int \<times> PacketBuffer) multiset" where
  "pending_list xs =
     sum_list (map (\<lambda>x. mset (map (Pair (channel_id (snd x))) (packet_queue (snd x)))) xs)"

definition pending :: "daemon \<Rightarrow> (int \<times> PacketBuffer) multiset" where
  "pending s = pending_list (channels s)"

text \<open>The number of bytes in the R2A ring, as \<^verbatim>\<open>flush_send_queue\<close> computes it.\<close>

definition r2a_len :: "daemon \<Rightarrow> int" where
  "r2a_len s =
     (uint (channel_status s R2A_TAIL_OFFSET) - uint (channel_status s R2A_HEAD_OFFSET)) AND 255"

text \<open>The payload bytes of the SRAM writes of a list of transfers, in order.\<close>

definition sram_payload :: "spi_ioc_transfer list \<Rightarrow> uint8_t list" where
  "sram_payload ws = concat (map (\<lambda>t. drop 3 (tr_tx t)) ws)"

text \<open>
  The order of service of the queued packets.  The send queue is served round robin: the
  channel at its front gives its first packet and, when it has more, goes to the back.
  \<open>round_robin\<close> runs this discipline on the packet queues alone, with nothing to stop it;
  \<open>service_order\<close> is its result on the queues of the channels of the send queue.
\<close>

function round_robin :: "(int \<times> PacketBuffer list) list \<Rightarrow> (int \<times> PacketBuffer) list" where
  "round_robin [] = []"
| "round_robin ((cid, []) # qs) = round_robin qs"
| "round_robin ((cid, pb # pq) # qs) =
     (cid, pb) # round_robin (if pq = [] then qs else qs @ [(cid, pq)])"
  by pat_completeness auto
termination
  by (relation "measure (\<lambda>qs. sum_list (map (\<lambda>q. length (snd q)) qs) + length qs)") auto

definition queue_of :: "daemon \<Rightarrow> ptr \<Rightarrow> int \<times> PacketBuffer list" where
  "queue_of s p =
     (case map_of (channels s) p of
        None \<Rightarrow> (0, [])
      | Some ch \<Rightarrow> (channel_id ch, packet_queue ch))"

definition service_order :: "daemon \<Rightarrow> (int \<times> PacketBuffer) list" where
  "service_order s = round_robin (map (queue_of s) (send_queue s))"

text \<open>The bytes that a list of packets takes in the ring: three of header and the payload.\<close>

definition framed_size :: "(int \<times> PacketBuffer) list \<Rightarrow> int" where
  "framed_size sent = sum_list (map (\<lambda>(cid, pb). 3 + int (length (pb_data pb))) sent)"

text \<open>
  The frame on the bus that writes \<open>bytes\<close> to the SRAM at the address \<open>a\<close>, as the peer
  reads it: the command 1 in the upper half of the first byte, then the twenty low bits
  of the address, the most significant first, then the bytes.
\<close>

definition sram_write_frame :: "nat \<Rightarrow> uint8_t list \<Rightarrow> spi_ioc_transfer" where
  "sram_write_frame a bytes =
     \<lparr>tr_tx = [of_nat (16 + a div 65536 mod 16), of_nat (a div 256 mod 256), of_nat (a mod 256)]
               @ bytes,
      tr_len = 3 + length bytes\<rparr>"

text \<open>
  The R2A ring is the 256 bytes of SRAM from \<open>base_address + 260\<close> on.  \<open>r2a_write s i bytes\<close>
  is the frame that writes \<open>bytes\<close> at the index \<open>i\<close> of the ring; \<open>r2a_writes s bytes\<close> are the
  frames that put \<open>bytes\<close> into the ring from the index \<^verbatim>\<open>R2A_TAIL\<close> on: none for no byte, one
  when the bytes end at or before the last index 255 of the ring, and else two, the second
  at the index 0 with the bytes that did not find room before the end.
\<close>

definition r2a_write :: "daemon \<Rightarrow> nat \<Rightarrow> uint8_t list \<Rightarrow> spi_ioc_transfer" where
  "r2a_write s i bytes = sram_write_frame (unat (base_address s) + 260 + i) bytes"

definition r2a_writes :: "daemon \<Rightarrow> uint8_t list \<Rightarrow> spi_ioc_transfer list" where
  "r2a_writes s bytes =
     (let tail = unat (channel_status s R2A_TAIL_OFFSET) in
      if bytes = [] then []
      else if tail + length bytes \<le> 256 then [r2a_write s tail bytes]
      else [r2a_write s tail (take (256 - tail) bytes),
            r2a_write s 0 (drop (256 - tail) bytes)])"

text \<open>
  The invariant of the reachable states: the send queue is in order, the channel nodes
  are in order, and no two registered services share a name.
\<close>

definition daemon_inv :: "daemon \<Rightarrow> bool" where
  "daemon_inv s \<longleftrightarrow> send_queue_ok s \<and> channels_ok s \<and> distinct (map srv_name (services s))"

text \<open>
  The message \<open>msg\<close> (header and payload) is given to the client \<open>c\<close> between the states \<open>s\<close>
  and \<open>s'\<close>: when the message queue of the client holds messages, \<open>msg\<close> is put behind them
  and nothing is written; when it is empty, the first \<^verbatim>\<open>write\<close> after \<open>s\<close> is on the
  descriptor of the client and offers all of \<open>msg\<close>.
\<close>

definition offered :: "ptr \<Rightarrow> uint8_t list \<Rightarrow> daemon \<Rightarrow> daemon \<Rightarrow> bool" where
  "offered c msg s s' =
     (case map_of (connections s) c of
        None \<Rightarrow> False
      | Some cc \<Rightarrow>
          if message_queue cc \<noteq> []
          then map_option message_queue (map_of (connections s') c)
                 = Some (message_queue cc @ [\<lparr>mb_pos = 0, mb_data = msg\<rparr>])
               \<and> sys_write_log s' = sys_write_log s
          else take (Suc (length (sys_write_log s))) (sys_write_log s')
                 = sys_write_log s @ [(fd cc, msg)])"

text \<open>
  The channel at \<open>p\<close> has been reset and told apart from its client: it has no client and
  the stream id 0, and its packet queue holds one \<^verbatim>\<open>PKT_RESET\<close> and is in the send queue.
\<close>

definition channel_reset :: "daemon \<Rightarrow> ptr \<Rightarrow> bool" where
  "channel_reset s p =
     (case map_of (channels s) p of
        None \<Rightarrow> False
      | Some ch \<Rightarrow>
          association ch = None \<and> stream_id ch = 0 \<and>
          packet_queue ch = [\<lparr>pb_type = PKT_RESET, pb_data = []\<rparr>] \<and>
          p \<in> set (send_queue s))"

text \<open>
  The channel at \<open>p\<close> can be reset: it is a node of the channel list, and when it has
  packets it is in the send queue.
\<close>

definition channel_ready :: "daemon \<Rightarrow> ptr \<Rightarrow> bool" where
  "channel_ready s p =
     (case map_of (channels s) p of
        None \<Rightarrow> False
      | Some ch \<Rightarrow> packet_queue ch = [] \<or> p \<in> set (send_queue s))"

text \<open>
  The connection \<open>c\<close>, which was \<open>cc\<close> in the state \<open>s\<close>, is closed and removed in \<open>s'\<close>: its
  descriptor has been closed, it is out of the list of connections, its services are out
  of the registry, and each channel that was associated with it has been reset.
\<close>

definition closed_and_removed :: "ptr \<Rightarrow> ClientConnection \<Rightarrow> daemon \<Rightarrow> daemon \<Rightarrow> bool" where
  "closed_and_removed c cc s s' \<longleftrightarrow>
     connections s' = filter (\<lambda>x. fst x \<noteq> c) (connections s) \<and>
     sys_close_log s' = sys_close_log s @ [fd cc] \<and>
     services s' = filter (\<lambda>srv. srv_cc srv \<noteq> c) (services s) \<and>
     list_all (channel_reset s') (associations cc)"

text \<open>
  The message queue of a client after the writes of \<open>ns\<close> bytes, one after the other, each
  from the message at the front: a message leaves the queue when its last byte is taken.
  There is no such queue when a write would take more than the message has left, or comes
  when the queue is empty.
\<close>

fun after_writes :: "nat list \<Rightarrow> MessageBuffer list \<Rightarrow> MessageBuffer list option" where
  "after_writes [] q = Some q"
| "after_writes (n # ns) [] = None"
| "after_writes (n # ns) (mb # mq) =
     (if int (length (mb_data mb)) - mb_pos mb < int n then None
      else if int n = int (length (mb_data mb)) - mb_pos mb then after_writes ns mq
      else after_writes ns (mb\<lparr>mb_pos := mb_pos mb + int n\<rparr> # mq))"

section \<open>Example states\<close>

text \<open>
  One channel (id 7, the node at address 0) that is not associated and holds one packet
  of one byte; the R2A ring is empty with head and tail at 254, so the four bytes of the
  packet wrap around the end of the ring.
\<close>

definition example_channel :: "PacketBuffer list \<Rightarrow> LogicalChannel" where
  "example_channel pq =
     \<lparr>channel_id = 7, association = None, stream_id = 0, got_eos_from_ami = False,
      got_eos_from_client = False, packet_queue = pq\<rparr>"

definition example_pending :: daemon where
  "example_pending =
     (initial_daemon [])
       \<lparr>channels := [(0, example_channel [\<lparr>pb_type = PKT_CONNECT_RESPONSE, pb_data = [3]\<rparr>])],
        send_queue := [0], next_ptr := 1,
        channel_status := (\<lambda>i. if i = R2A_HEAD_OFFSET \<or> i = R2A_TAIL_OFFSET then 254 else 0)\<rparr>"

text \<open>The same channel with one packet of 253 bytes at the front of its queue.\<close>

definition example_oversized :: daemon where
  "example_oversized =
     (initial_daemon [])
       \<lparr>channels := [(0, example_channel [\<lparr>pb_type = PKT_DATA, pb_data = replicate 253 0\<rparr>,
                                           \<lparr>pb_type = PKT_EOS, pb_data = []\<rparr>])],
        send_queue := [0], next_ptr := 1\<rparr>"

text \<open>
  Two channels with packets to send: channel 7 (the node at address 0) holds a data
  packet of two bytes and an end of stream, channel 9 (the node at address 1) a data packet
  of four bytes.  The ring holds 245 bytes, from the head 10 to the tail 255, so ten bytes
  are free and the next byte written is the last of the ring; the communication area is
  at the address \<^verbatim>\<open>0x12340\<close>.
\<close>

definition example_blocked :: daemon where
  "example_blocked =
     (initial_daemon [])
       \<lparr>have_base_address := True, base_address := 0x12340,
        channels := [(0, example_channel [\<lparr>pb_type = PKT_DATA, pb_data = [0xAA, 0xBB]\<rparr>,
                                           \<lparr>pb_type = PKT_EOS, pb_data = []\<rparr>]),
                     (1, (example_channel [\<lparr>pb_type = PKT_DATA, pb_data = [1, 2, 3, 4]\<rparr>])
                           \<lparr>channel_id := 9\<rparr>)],
        send_queue := [0, 1], next_ptr := 2,
        channel_status := (\<lambda>i. if i = R2A_HEAD_OFFSET then 10
                                else if i = R2A_TAIL_OFFSET then 255 else 0)\<rparr>"

text \<open>
  The daemon after its start with no configuration and a bus that answers nothing:
  \<^verbatim>\<open>handle_a314_irq\<close> has read the event register, found no event, and returned.
\<close>

definition example_idle :: main_loop_state where
  "example_idle =
     \<lparr>first_gpio_event = True, shutting_down = False, is_done = False,
      globals = (initial_daemon [])\<lparr>spi_log := [\<lparr>tr_tx = [0x2c, 0], tr_len = 2\<rparr>]\<rparr>\<rparr>"

text \<open>
  A client (the connection at address 1, on descriptor 5) with one stream: the channel 7
  (the node at address 0) is associated with it under the stream id 1.  The client has
  sent a \<^verbatim>\<open>MSG_DATA\<close> on this stream whose header gives the length 258 (the bytes 2, 1, 0, 0),
  and its payload of 258 bytes has been read.
\<close>

definition example_stream :: daemon where
  "example_stream =
     (initial_daemon [])
       \<lparr>connections :=
          [(1, (new_connection 5)
                 \<lparr>next_stream_id := 3,
                  header := (\<lambda>i. if i = 0 then 2 else if i = 1 then 1 else if i = 4 then 1
                                  else if i = 8 then MSG_DATA else 0),
                  payload := 1 # 2 # replicate 256 0,
                  associations := [0]\<rparr>)],
        channels := [(0, (example_channel [])\<lparr>association := Some 1, stream_id := 1\<rparr>)],
        next_ptr := 2\<rparr>"

text \<open>
  A client (the connection at address 1, on descriptor 5) that has sent a message with the
  payload \<^verbatim>\<open>ab\<close>; no service is registered, and the next \<^verbatim>\<open>write\<close> will take ten bytes.
\<close>

definition example_register :: daemon where
  "example_register =
     (initial_daemon [])
       \<lparr>connections := [(1, (new_connection 5)\<lparr>payload := [0x61, 0x62]\<rparr>)],
        next_ptr := 2, sys_write := [Written 10]\<rparr>"

text \<open>
  The daemon with the service \<^verbatim>\<open>ab\<close> configured to start on demand and no service
  registered; the next launch will succeed and give the descriptor 6.
\<close>

definition example_on_demand :: daemon where
  "example_on_demand =
     (initial_daemon [\<lparr>service_name = [0x61, 0x62], program = [0x70], arguments = []\<rparr>])
       \<lparr>sys_launch := [\<lparr>socketpair_ok = True, fork_ok = True, launch_fd = 6,
                          fcntl_fd_ok = True, fcntl_fl_ok = True, epoll_ctl_ok = True\<rparr>],
        sys_write := [Written 11]\<rparr>"

text \<open>
  The client of \<open>example_stream\<close> with a message of nine bytes waiting in its queue; the
  next \<^verbatim>\<open>write\<close> will take four bytes, and the one after it fails with \<^verbatim>\<open>ECONNRESET\<close>.
\<close>

definition example_queued :: daemon where
  "example_queued =
     example_stream
       \<lparr>connections :=
          [(1, (new_connection 5)
                 \<lparr>next_stream_id := 3,
                  message_queue := [\<lparr>mb_pos = 0, mb_data = [0, 0, 0, 0, 1, 0, 0, 0, 12]\<rparr>],
                  associations := [0]\<rparr>)],
        sys_write := [Written 4, WriteError ECONNRESET]\<rparr>"

section \<open>Lemmas\<close>

lemma bindE_simps [simp]: "bindE (Inl e) f = Inl e" "bindE (Inr x) f = f x"
  by (simp_all add: bindE_def)

lemma and_255: "(x::int) AND 255 = x mod 256"
  using take_bit_eq_mask [of 8 x] by (simp add: take_bit_eq_mod mask_eq_exp_minus_1)

lemma map_of_modify:
  "map_of (modify p f xs) q = (if q = p then map_option f (map_of xs p) else map_of xs q)"
  by (induction xs) (auto simp: modify_def)

lemma map_fst_modify [simp]: "map fst (modify p f xs) = map fst xs"
  by (induction xs) (auto simp: modify_def)

lemma pending_list_simps [simp]:
  "pending_list [] = {#}"
  "pending_list (x # xs) = mset (map (Pair (channel_id (snd x))) (packet_queue (snd x))) + pending_list xs"
  by (simp_all add: pending_list_def)

lemma remove_channel_loop_pending [simp]:
  "pending_list (remove_channel_loop cid xs) = pending_list xs"
  by (induction xs) auto

lemma remove_channel_loop_subset: "set (remove_channel_loop cid xs) \<subseteq> set xs"
  by (induction xs) auto

lemma remove_channel_loop_fst_subset:
  "set (map fst (remove_channel_loop cid xs)) \<subseteq> set (map fst xs)"
  using remove_channel_loop_subset [of cid xs] by auto

lemma remove_channel_loop_distinct:
  "distinct (map fst xs) \<Longrightarrow> distinct (map fst (remove_channel_loop cid xs))"
proof (induction xs)
  case Nil then show ?case by simp
next
  case (Cons x xs)
  have "fst ` set (remove_channel_loop cid xs) \<subseteq> fst ` set xs"
    using remove_channel_loop_subset [of cid xs] by blast
  with Cons show ?case by auto
qed

lemma remove_channel_loop_keeps:
  "distinct (map fst xs) \<Longrightarrow> map_of xs q = Some ch \<Longrightarrow> packet_queue ch \<noteq> [] \<Longrightarrow>
   map_of (remove_channel_loop cid xs) q = Some ch"
  by (induction xs) (auto simp: rev_image_eqI split: if_splits)

lemma pending_list_pop:
  "distinct (map fst xs) \<Longrightarrow> map_of xs p = Some ch \<Longrightarrow> packet_queue ch = pb # pq \<Longrightarrow>
   pending_list xs = {#(channel_id ch, pb)#} + pending_list (modify p (\<lambda>ch. ch\<lparr>packet_queue := pq\<rparr>) xs)"
proof (induction xs)
  case Nil then show ?case by simp
next
  case (Cons x xs)
  show ?case
  proof (cases "fst x = p")
    case True
    with Cons.prems have x: "snd x = ch" by simp
    from True Cons.prems have "p \<notin> fst ` set xs" by auto
    then have "modify p (\<lambda>ch. ch\<lparr>packet_queue := pq\<rparr>) xs = xs"
      by (induction xs) (auto simp: modify_def)
    with True x Cons.prems show ?thesis by (cases x) (simp add: modify_def)
  next
    case False
    with Cons show ?thesis by (cases x) (simp add: modify_def)
  qed
qed


declare flush_loop.simps [simp del]

lemma flush_loop_spec:
  "send_queue_ok s \<Longrightarrow> distinct (map fst (channels s)) \<Longrightarrow> 0 \<le> left \<Longrightarrow>
   int (length buf) + left \<le> 255 \<Longrightarrow>
   \<exists>s' sent.
     flush_loop left buf s = Inr (buf @ serialize_all sent, s') \<and>
     int (length (serialize_all sent)) \<le> left \<and>
     pending s = mset sent + pending s' \<and>
     service_order s = sent @ service_order s' \<and>
     (case front_packet s' of
        None \<Rightarrow> send_queue s' = []
      | Some (cid, pb) \<Rightarrow> left - int (length (serialize_all sent)) < 3 + int (length (pb_data pb))) \<and>
     send_queue_ok s' \<and> distinct (map fst (channels s')) \<and>
     set (map fst (channels s')) \<subseteq> set (map fst (channels s)) \<and>
     s' = s\<lparr>channels := channels s', send_queue := send_queue s'\<rparr>"
proof (induction left buf s rule: flush_loop.induct)
  case (1 left buf s)
  show ?case
  proof (cases "send_queue s")
    case Nil
    then have "flush_loop left buf s = Inr (buf @ serialize_all [], s)"
      by (simp add: flush_loop.simps serialize_all_def)
    moreover have "front_packet s = None" using Nil by (simp add: front_packet_def)
    ultimately show ?thesis using Nil "1.prems"
      by (intro exI [of _ s] exI [of _ "[]"]) (simp add: serialize_all_def)
  next
    case (Cons p rest)
    from "1.prems"(1) Cons obtain ch where ch: "map_of (channels s) p = Some ch"
      and ne: "packet_queue ch \<noteq> []"
      by (auto simp: send_queue_ok_def)
    then obtain pb pq where pq: "packet_queue ch = pb # pq" by (cases "packet_queue ch") auto
    let ?plen = "3 + int (length (pb_data pb))"
    show ?thesis
    proof (cases "left < ?plen")
      case True
      then have "flush_loop left buf s = Inr (buf @ serialize_all [], s)"
        using Cons ch pq by (simp add: flush_loop.simps serialize_all_def)
      moreover have "front_packet s = Some (channel_id ch, pb)"
        using Cons ch pq by (simp add: front_packet_def)
      ultimately show ?thesis using True "1.prems"
        by (intro exI [of _ s] exI [of _ "[]"]) (simp add: serialize_all_def)
    next
      case False
      define s1 where "s1 = s\<lparr>channels := modify p (\<lambda>ch. ch\<lparr>packet_queue := pq\<rparr>) (channels s),
                                send_queue := rest\<rparr>"
      define s2 where "s2 = (let s1 = s\<lparr>channels := modify p (\<lambda>ch. ch\<lparr>packet_queue := pq\<rparr>) (channels s),
                                send_queue := rest\<rparr>
                             in if pq \<noteq> [] then s1\<lparr>send_queue := rest @ [p]\<rparr>
                             else remove_channel_if_not_associated_and_empty_pq (channel_id ch) s1)"
      have s2_eq: "s2 = (if pq \<noteq> [] then s1\<lparr>send_queue := rest @ [p]\<rparr>
                             else remove_channel_if_not_associated_and_empty_pq (channel_id ch) s1)"
        by (simp add: s2_def s1_def)
      have room: "\<not> 256 < length buf + 3 + length (pb_data pb)"
        using False "1.prems"(4) by linarith
      have unfold: "flush_loop left buf s =
          flush_loop (left - ?plen) (buf @ serialize_packet (channel_id ch) pb) s2"
        using Cons ch pq False room
        by (subst flush_loop.simps) (simp add: s2_def)
      have len_ser: "int (length (serialize_packet (channel_id ch) pb)) = ?plen"
        by (simp add: serialize_packet_def)
      have dist_sq: "distinct (p # rest)" using "1.prems"(1) Cons by (simp add: send_queue_ok_def)
      have rest_ok: "\<exists>c. map_of (channels s1) q = Some c \<and> packet_queue c \<noteq> []"
        if "q \<in> set rest" for q
      proof -
        from that dist_sq have "q \<noteq> p" by auto
        moreover from that "1.prems"(1) Cons
        have "\<exists>c. map_of (channels s) q = Some c \<and> packet_queue c \<noteq> []"
          by (auto simp: send_queue_ok_def)
        ultimately show ?thesis by (simp add: s1_def map_of_modify)
      qed
      have d1: "distinct (map fst (channels s1))" using "1.prems"(2) by (simp add: s1_def)
      have d2: "distinct (map fst (channels s2))"
        using d1 by (simp add: s2_eq remove_channel_if_not_associated_and_empty_pq_def
            remove_channel_loop_distinct)
      have ok2: "send_queue_ok s2"
      proof (cases "pq = []")
        case True
        have "\<exists>c. map_of (channels s2) q = Some c \<and> packet_queue c \<noteq> []" if "q \<in> set rest" for q
          using rest_ok [OF that] d1 True
          by (auto simp: s2_eq remove_channel_if_not_associated_and_empty_pq_def
              remove_channel_loop_keeps)
        moreover have "send_queue s2 = rest"
          using True by (simp add: s2_eq s1_def remove_channel_if_not_associated_and_empty_pq_def)
        ultimately show ?thesis using dist_sq by (simp add: send_queue_ok_def)
      next
        case False
        have "map_of (channels s2) p = Some (ch\<lparr>packet_queue := pq\<rparr>)"
          using False ch by (simp add: s2_eq s1_def map_of_modify)
        moreover have "send_queue s2 = rest @ [p]" "channels s2 = channels s1"
          using False by (simp_all add: s2_eq s1_def)
        ultimately show ?thesis using dist_sq rest_ok False
          by (auto simp: send_queue_ok_def)
      qed
      have sub2: "set (map fst (channels s2)) \<subseteq> set (map fst (channels s))"
        using remove_channel_loop_fst_subset [of "channel_id ch" "channels s1"]
        by (cases "pq = []")
           (simp_all add: s2_eq s1_def remove_channel_if_not_associated_and_empty_pq_def
              del: set_map)
      have pend: "pending s = {#(channel_id ch, pb)#} + pending s2"
        using pending_list_pop [OF "1.prems"(2) ch pq]
        by (simp add: pending_def s2_eq s1_def remove_channel_if_not_associated_and_empty_pq_def)
      have frame: "s2 = s\<lparr>channels := channels s2, send_queue := send_queue s2\<rparr>"
        by (simp add: s2_eq s1_def remove_channel_if_not_associated_and_empty_pq_def)
      have keep: "queue_of s2 q = queue_of s q" if "q \<in> set rest" for q
      proof -
        from that dist_sq have ne: "q \<noteq> p" by auto
        from that "1.prems"(1) Cons obtain c where c: "map_of (channels s) q = Some c"
          and cne: "packet_queue c \<noteq> []"
          by (auto simp: send_queue_ok_def)
        have c1: "map_of (channels s1) q = Some c" using c ne by (simp add: s1_def map_of_modify)
        have "map_of (channels s2) q = Some c"
        proof (cases "pq = []")
          case True
          then have "channels s2 = remove_channel_loop (channel_id ch) (channels s1)"
            by (simp add: s2_eq remove_channel_if_not_associated_and_empty_pq_def)
          with remove_channel_loop_keeps [OF d1 c1 cne] show ?thesis by simp
        next
          case False
          then have "channels s2 = channels s1" by (simp add: s2_eq)
          with c1 show ?thesis by simp
        qed
        with c show ?thesis by (simp add: queue_of_def)
      qed
      have order: "service_order s = (channel_id ch, pb) # service_order s2"
      proof -
        have qs: "map (queue_of s2) rest = map (queue_of s) rest" using keep by simp
        have "service_order s = round_robin ((channel_id ch, pb # pq) # map (queue_of s) rest)"
          using Cons ch pq by (simp add: service_order_def queue_of_def)
        also have "\<dots> = (channel_id ch, pb) #
            round_robin (if pq = [] then map (queue_of s) rest
                         else map (queue_of s) rest @ [(channel_id ch, pq)])"
          by simp
        also have "(if pq = [] then map (queue_of s) rest
                    else map (queue_of s) rest @ [(channel_id ch, pq)])
                   = map (queue_of s2) (send_queue s2)"
        proof (cases "pq = []")
          case True
          then have "send_queue s2 = rest"
            by (simp add: s2_eq s1_def remove_channel_if_not_associated_and_empty_pq_def)
          with True qs show ?thesis by simp
        next
          case False
          then have "send_queue s2 = rest @ [p]" "channels s2 = channels s1"
            by (simp_all add: s2_eq s1_def)
          moreover from this ch have "queue_of s2 p = (channel_id ch, pq)"
            by (simp add: queue_of_def s1_def map_of_modify)
          ultimately show ?thesis using False qs by simp
        qed
        finally show ?thesis by (simp add: service_order_def)
      qed
      have "\<exists>s' sent.
         flush_loop (left - ?plen) (buf @ serialize_packet (channel_id ch) pb) s2 =
           Inr ((buf @ serialize_packet (channel_id ch) pb) @ serialize_all sent, s') \<and>
         int (length (serialize_all sent)) \<le> left - ?plen \<and>
         pending s2 = mset sent + pending s' \<and>
         service_order s2 = sent @ service_order s' \<and>
         (case front_packet s' of
            None \<Rightarrow> send_queue s' = []
          | Some (cid, pb') \<Rightarrow>
              left - ?plen - int (length (serialize_all sent)) < 3 + int (length (pb_data pb'))) \<and>
         send_queue_ok s' \<and> distinct (map fst (channels s')) \<and>
         set (map fst (channels s')) \<subseteq> set (map fst (channels s2)) \<and>
         s' = s2\<lparr>channels := channels s', send_queue := send_queue s'\<rparr>"
        using "1.IH" [OF Cons ch pq False room, folded s2_def] ok2 d2 False "1.prems" len_ser
        by simp
      then obtain s' sent where
        run: "flush_loop (left - ?plen) (buf @ serialize_packet (channel_id ch) pb) s2 =
           Inr ((buf @ serialize_packet (channel_id ch) pb) @ serialize_all sent, s')"
        and le: "int (length (serialize_all sent)) \<le> left - ?plen"
        and pend': "pending s2 = mset sent + pending s'"
        and ord': "service_order s2 = sent @ service_order s'"
        and stop: "(case front_packet s' of
            None \<Rightarrow> send_queue s' = []
          | Some (cid, pb') \<Rightarrow>
              left - ?plen - int (length (serialize_all sent)) < 3 + int (length (pb_data pb')))"
        and ok': "send_queue_ok s'" and d': "distinct (map fst (channels s'))"
        and sub': "set (map fst (channels s')) \<subseteq> set (map fst (channels s2))"
        and frame': "s' = s2\<lparr>channels := channels s', send_queue := send_queue s'\<rparr>"
        by blast
      let ?sent = "(channel_id ch, pb) # sent"
      have ser: "serialize_all ?sent = serialize_packet (channel_id ch) pb @ serialize_all sent"
        by (simp add: serialize_all_def)
      have len: "int (length (serialize_all ?sent)) = ?plen + int (length (serialize_all sent))"
        using len_ser by (simp add: ser)
      have "flush_loop left buf s = Inr (buf @ serialize_all ?sent, s')"
        using unfold run by (simp add: ser)
      moreover have "int (length (serialize_all ?sent)) \<le> left" using le len by linarith
      moreover have "pending s = mset ?sent + pending s'" using pend pend' by simp
      moreover have "service_order s = ?sent @ service_order s'" using order ord' by simp
      moreover have "(case front_packet s' of
            None \<Rightarrow> send_queue s' = []
          | Some (cid, pb') \<Rightarrow>
              left - int (length (serialize_all ?sent)) < 3 + int (length (pb_data pb')))"
        using stop len by (auto split: option.splits simp: algebra_simps)
      moreover have "s' = s\<lparr>channels := channels s', send_queue := send_queue s'\<rparr>"
        by (subst frame', subst frame) simp
      moreover have "set (map fst (channels s')) \<subseteq> set (map fst (channels s))"
        using sub' sub2 by blast
      ultimately show ?thesis using ok' d' by blast
    qed
  qed
qed


lemma transfer_fields [simp]:
  "spi_log (transfer tx n s) = spi_log s @ [\<lparr>tr_tx = tx, tr_len = n\<rparr>]"
  "channels (transfer tx n s) = channels s"
  "send_queue (transfer tx n s) = send_queue s"
  "channel_status (transfer tx n s) = channel_status s"
  "channel_status_updated (transfer tx n s) = channel_status_updated s"
  "base_address (transfer tx n s) = base_address s"
  "have_base_address (transfer tx n s) = have_base_address s"
  "connections (transfer tx n s) = connections s"
  "services (transfer tx n s) = services s"
  by (simp_all add: transfer_def Let_def split: list.splits)

lemma length_spi_header [simp]: "length (spi_header cmd a) = 3"
  by (simp add: spi_header_def Let_def)

lemma unat_of_int_32: "0 \<le> x \<Longrightarrow> x < 4294967296 \<Longrightarrow> unat (of_int x :: uint32_t) = nat x"
  by (simp add: unat_eq_nat_uint uint_word_of_int take_bit_eq_mod)

lemma hdr_nat:
  "unat (push_bit 20 1 OR (w AND 0xfffff) :: uint32_t) = 1048576 + unat w mod 1048576"
proof -
  have m: "w AND 0xfffff = take_bit 20 w"
    by (simp add: take_bit_eq_mask mask_eq_exp_minus_1)
  have p: "(push_bit 20 1 :: uint32_t) = 2 ^ 20" by simp
  have "(2 ^ 20 :: uint32_t) OR take_bit 20 w = 2 ^ 20 + take_bit 20 w"
    by (rule disjunctive_add [symmetric]) (auto simp: bit_simps simp del: power_numeral)
  moreover have t: "unat (take_bit 20 w) = unat w mod 1048576"
    by (simp add: take_bit_eq_mod unat_mod)
  moreover have "unat (2 ^ 20 + take_bit 20 w :: uint32_t) = 1048576 + unat (take_bit 20 w)"
  proof -
    have "unat w mod 1048576 < 1048576" by simp
    then show ?thesis by (simp add: unat_word_ariths t)
  qed
  ultimately show ?thesis unfolding m p by simp
qed

lemma ucast_and_255: "(ucast (x AND 0xff :: uint32_t) :: uint8_t) = of_nat (unat x)"
proof -
  have "x AND 0xff = take_bit 8 x" by (simp add: take_bit_eq_mask mask_eq_exp_minus_1)
  moreover have "(ucast (take_bit 8 x) :: uint8_t) = ucast x"
    by (rule bit_word_eqI) (simp add: bit_simps)
  ultimately show ?thesis by simp
qed

lemma of_nat_8_mod: "(of_nat (n mod 256) :: uint8_t) = of_nat n"
  by (simp add: word_of_nat_eq_iff take_bit_eq_mod)

lemma spi_header_write:
  "spi_header WRITE_SRAM_CMD w =
     [of_nat (16 + unat w div 65536 mod 16), of_nat (unat w div 256 mod 256), of_nat (unat w mod 256)]"
proof -
  define h where "h = (push_bit 20 1 OR (w AND 0xfffff) :: uint32_t)"
  define a where "a = unat w mod 1048576"
  have h: "unat h = 1048576 + a" unfolding h_def a_def by (rule hdr_nat)
  have b0: "(of_nat (unat (drop_bit 16 h)) :: uint8_t) = of_nat (16 + unat w div 65536 mod 16)"
  proof -
    have "unat (drop_bit 16 h) = (1048576 + a) div 65536"
      using h by (simp add: drop_bit_eq_div unat_div)
    also have "\<dots> = 16 + a div 65536" by simp
    also have "a div 65536 = unat w div 65536 mod 16"
      unfolding a_def using mod_mult2_eq [of "unat w" 65536 16] by simp
    finally show ?thesis by simp
  qed
  have b1: "(of_nat (unat (drop_bit 8 h)) :: uint8_t) = of_nat (unat w div 256 mod 256)"
  proof -
    have "unat (drop_bit 8 h) = (1048576 + a) div 256"
      using h by (simp add: drop_bit_eq_div unat_div)
    also have "\<dots> = 4096 + a div 256" by simp
    finally have "unat (drop_bit 8 h) mod 256 = (a div 256) mod 256"
      using mod_mult_self3 [of 16 256 "a div 256"] by simp
    also have "\<dots> = unat w div 256 mod 256"
      unfolding a_def using mod_mult2_eq [of "unat w" 256 4096]
        mod_mod_cancel [of 256 4096 "unat w div 256"] by simp
    finally have "unat (drop_bit 8 h) mod 256 = unat w div 256 mod 256" .
    then have "(of_nat (unat (drop_bit 8 h) mod 256) :: uint8_t) = of_nat (unat w div 256 mod 256)"
      by simp
    then show ?thesis unfolding of_nat_8_mod .
  qed
  have b2: "(of_nat (unat h) :: uint8_t) = of_nat (unat w mod 256)"
  proof -
    have "(4096 * 256 + a) mod 256 = a mod 256" by (rule mod_mult_self3)
    moreover have "a mod 256 = unat w mod 256"
      unfolding a_def by (rule mod_mod_cancel) simp
    ultimately have "unat h mod 256 = unat w mod 256" unfolding h by simp
    then have "(of_nat (unat h mod 256) :: uint8_t) = of_nat (unat w mod 256)" by simp
    then show ?thesis unfolding of_nat_8_mod .
  qed
  show ?thesis
    unfolding spi_header_def Let_def h_def [symmetric] ucast_and_255 b0 b1 b2 by (rule refl)
qed


lemma low_bits_mod:
  fixes A :: nat
  shows "A mod 4294967296 div 65536 mod 16 = A div 65536 mod 16"
    and "A mod 4294967296 div 256 mod 256 = A div 256 mod 256"
    and "A mod 4294967296 mod 256 = A mod 256"
proof -
  have "A mod (65536 * 65536) div 65536 = A div 65536 mod 65536"
    unfolding mod_mult2_eq [of A 65536 65536] by simp
  then show "A mod 4294967296 div 65536 mod 16 = A div 65536 mod 16"
    using mod_mod_cancel [of 16 65536 "A div 65536"] by simp
  have "A mod (256 * 16777216) div 256 = A div 256 mod 16777216"
    unfolding mod_mult2_eq [of A 256 16777216] by simp
  then show "A mod 4294967296 div 256 mod 256 = A div 256 mod 256"
    using mod_mod_cancel [of 256 16777216 "A div 256"] by simp
  show "A mod 4294967296 mod 256 = A mod 256"
    by (rule mod_mod_cancel) simp
qed

lemma spi_write_mem_r2a:
  assumes "i < 256" and "n \<le> length buf" and "0 < n" and "n \<le> 256"
  shows "spi_write_mem (b + 260 + of_nat i) buf (of_nat n) s =
           Inr (transfer (tr_tx (sram_write_frame (unat b + 260 + i) (take n buf)))
                         (tr_len (sram_write_frame (unat b + 260 + i) (take n buf))) s)"
proof -
  have n: "unat (of_nat n :: uint32_t) = n" using assms by (simp add: unat_of_nat)
  have n3: "unat (of_nat n + 3 :: uint32_t) = 3 + n"
    using assms by (simp add: unat_word_ariths n)
  have u: "unat (b + 260 + of_nat i) = (unat b + 260 + i) mod 4294967296"
    using assms by (simp add: unat_word_ariths unat_of_nat mod_add_left_eq)
  show ?thesis
    unfolding spi_write_mem_def n n3 spi_header_write u low_bits_mod sram_write_frame_def
    using assms by simp
qed


lemma framed_size_simps [simp]:
  "framed_size [] = 0"
  "framed_size ((cid, pb) # xs) = 3 + int (length (pb_data pb)) + framed_size xs"
  "framed_size (xs @ ys) = framed_size xs + framed_size ys"
  by (simp_all add: framed_size_def)

lemma framed_size_nonneg: "0 \<le> framed_size xs"
  by (induction xs) (auto simp: framed_size_def)

lemma length_serialize_all: "int (length (serialize_all sent)) = framed_size sent"
  by (induction sent) (auto simp: serialize_all_def serialize_packet_def framed_size_def)

lemma service_order_front:
  "front_packet s = Some (cid, pb) \<Longrightarrow> \<exists>r. service_order s = (cid, pb) # r"
  by (auto simp: front_packet_def service_order_def queue_of_def
           split: list.splits option.splits)

lemma service_order_empty: "send_queue s = [] \<Longrightarrow> service_order s = []"
  by (simp add: service_order_def)

lemma longest_fitting_prefix:
  assumes ord: "service_order s = sent @ service_order s'"
    and stop: "(case front_packet s' of
                  None \<Rightarrow> send_queue s' = []
                | Some (cid, pb) \<Rightarrow> room - framed_size sent < 3 + int (length (pb_data pb)))"
    and pre: "prefix sent' (service_order s)" and fits: "framed_size sent' \<le> room"
  shows "prefix sent' sent"
proof -
  from pre ord have "prefix sent' sent \<or> (\<exists>us. sent' = sent @ us \<and> prefix us (service_order s'))"
    by (simp add: prefix_append)
  then show ?thesis
  proof
    assume "prefix sent' sent" then show ?thesis .
  next
    assume "\<exists>us. sent' = sent @ us \<and> prefix us (service_order s')"
    then obtain us where us: "sent' = sent @ us" and pu: "prefix us (service_order s')" by blast
    show ?thesis
    proof (cases us)
      case Nil with us show ?thesis by simp
    next
      case (Cons u us')
      with pu obtain r where so: "service_order s' = u # r" by (cases "service_order s'") auto
      obtain cid pb where u: "u = (cid, pb)" by (cases u)
      have "front_packet s' = Some (cid, pb)"
      proof (cases "front_packet s'")
        case None
        with stop have "send_queue s' = []" by simp
        with so show ?thesis by (simp add: service_order_empty)
      next
        case (Some x)
        obtain c' p' where x: "x = (c', p')" by (cases x)
        from service_order_front [of s' c' p'] Some x so u show ?thesis by auto
      qed
      with stop have "room - framed_size sent < 3 + int (length (pb_data pb))" by simp
      moreover have "framed_size sent' = framed_size sent + (3 + int (length (pb_data pb))) + framed_size us'"
        using us Cons u by simp
      moreover have "0 \<le> framed_size us'" by (rule framed_size_nonneg)
      ultimately have False using fits by linarith
      then show ?thesis ..
    qed
  qed
qed


lemma flush_send_queue_spec:
  assumes ok: "send_queue_ok s" and d: "distinct (map fst (channels s))"
  shows "\<exists>any_sent s' sent ws.
     flush_send_queue s = Inr (any_sent, s') \<and>
     spi_log s' = spi_log s @ ws \<and>
     ws = r2a_writes s (serialize_all sent) \<and>
     sram_payload ws = serialize_all sent \<and>
     int (length (serialize_all sent)) \<le> 255 - r2a_len s \<and>
     pending s = mset sent + pending s' \<and>
     service_order s = sent @ service_order s' \<and>
     (case front_packet s' of
        None \<Rightarrow> send_queue s' = []
      | Some (cid, pb) \<Rightarrow>
          255 - r2a_len s - int (length (serialize_all sent)) < 3 + int (length (pb_data pb))) \<and>
     r2a_len s' = r2a_len s + int (length (serialize_all sent)) \<and>
     r2a_len s' \<le> 255 \<and>
     channel_status s' = (channel_status s)
       (R2A_TAIL_OFFSET :=
          of_nat ((unat (channel_status s R2A_TAIL_OFFSET) + length (serialize_all sent)) mod 256)) \<and>
     any_sent = (sent \<noteq> [])"
proof -
  define tail where "tail = uint (channel_status s R2A_TAIL_OFFSET)"
  define head where "head = uint (channel_status s R2A_HEAD_OFFSET)"
  have tail_b: "0 \<le> tail" "tail < 256"
    using uint_lt2p [of "channel_status s 2"] by (simp_all add: tail_def)
  have len_b: "0 \<le> r2a_len s" "r2a_len s < 256" by (simp_all add: r2a_len_def and_255)
  have left0: "0 \<le> 255 - r2a_len s" "int (length ([]::uint8_t list)) + (255 - r2a_len s) \<le> 255"
    using len_b by simp_all
  from flush_loop_spec [OF ok d left0] obtain s1 sent where
    run: "flush_loop (255 - r2a_len s) [] s = Inr (serialize_all sent, s1)"
    and c4: "int (length (serialize_all sent)) \<le> 255 - r2a_len s"
    and pend: "pending s = mset sent + pending s1"
    and ord: "service_order s = sent @ service_order s1"
    and stop: "(case front_packet s1 of
        None \<Rightarrow> send_queue s1 = []
      | Some (cid, pb) \<Rightarrow>
          255 - r2a_len s - int (length (serialize_all sent)) < 3 + int (length (pb_data pb)))"
    and frame: "s1 = s\<lparr>channels := channels s1, send_queue := send_queue s1\<rparr>"
    by auto
  define buf where "buf = serialize_all sent"
  define n where "n = int (length buf)"
  have cs1: "channel_status s1 = channel_status s" "spi_log s1 = spi_log s"
    by (subst frame, simp)+
  have ser_empty: "(buf = []) = (sent = [])"
    by (cases sent) (auto simp: buf_def serialize_all_def serialize_packet_def)
  define t where "t = unat (channel_status s R2A_TAIL_OFFSET)"
  have t_int: "tail = int t" unfolding tail_def t_def by (rule uint_nat)
  have t: "tail = int t" "t < 256"
    using tail_b t_int by linarith+
  have base1: "base_address s1 = base_address s" by (subst frame) simp
  have run': "flush_loop (255 - ((tail - head) AND 255)) [] s = Inr (buf, s1)"
    using run by (simp add: r2a_len_def tail_def head_def buf_def)
  show ?thesis
  proof (cases "n = 0")
    case True
    then have c1: "flush_send_queue s = Inr (False, s1)"
      using run' by (simp add: flush_send_queue_def Let_def n_def tail_def head_def)
    have c2: "spi_log s1 = spi_log s @ []" by (simp add: cs1)
    have c3: "sram_payload [] = serialize_all sent"
      using True ser_empty by (simp add: n_def buf_def sram_payload_def)
    have c7: "r2a_len s1 = r2a_len s + int (length (serialize_all sent))"
      using True by (simp add: r2a_len_def cs1 n_def buf_def)
    have c8: "r2a_len s1 \<le> 255" using c7 c4 by linarith
    have c9: "False = (sent \<noteq> [])" using True ser_empty by (simp add: n_def)
    have cw: "[] = r2a_writes s (serialize_all sent)"
      using True by (simp add: r2a_writes_def n_def buf_def)
    have "(of_nat (t mod 256) :: uint8_t) = channel_status s R2A_TAIL_OFFSET"
      using t by (simp add: t_def)
    then have cst: "channel_status s1 = (channel_status s)
       (R2A_TAIL_OFFSET :=
          of_nat ((unat (channel_status s R2A_TAIL_OFFSET) + length (serialize_all sent)) mod 256))"
      using True by (simp add: cs1 n_def buf_def t_def [symmetric])
    show ?thesis
      by (rule exI [of _ False], rule exI [of _ s1], rule exI [of _ sent], rule exI [of _ "[]"])
         (intro conjI c1 c2 cw c3 c4 pend ord stop c7 c8 cst c9)
  next
    case False
    then have npos: "0 < n" by (simp add: n_def)
    have nle: "n \<le> 255" using c4 len_b by (simp add: n_def buf_def)
    have nlen: "length buf = nat n" by (simp add: n_def)
    define nt where "nt = (of_int ((tail + n) AND 255) :: uint8_t)"
    have uint_nt: "uint nt = (tail + n) mod 256"
      by (simp add: nt_def and_255 uint_word_of_int take_bit_eq_mod)
    have newlen: "(uint nt - head) AND 255 = r2a_len s + n"
    proof -
      have "(uint nt - head) mod 256 = (tail + n - head) mod 256"
        unfolding uint_nt by (rule mod_diff_left_eq)
      also have "tail + n - head = (tail - head) + n" by simp
      also have "((tail - head) + n) mod 256 = ((tail - head) mod 256 + n) mod 256"
        by (rule mod_add_left_eq [symmetric])
      also have "(tail - head) mod 256 = r2a_len s"
        by (simp add: r2a_len_def and_255 tail_def head_def)
      also have "(r2a_len s + n) mod 256 = r2a_len s + n"
        using c4 len_b npos by (intro mod_pos_pos_trivial) (simp_all add: n_def buf_def)
      finally show ?thesis by (simp add: and_255)
    qed
    have "(tail + n) mod 256 = int ((t + length buf) mod 256)"
      by (simp add: t n_def of_nat_mod)
    then have nt_nat: "nt = of_nat ((t + length buf) mod 256)"
      by (simp add: nt_def and_255)
    have finish: ?thesis
      if c1: "flush_send_queue s = Inr (True, s')"
        and c2: "spi_log s' = spi_log s @ ws"
        and cw: "ws = r2a_writes s buf"
        and cat: "concat (map (\<lambda>t. drop 3 (tr_tx t)) ws) = buf"
        and ch: "channels s' = channels s1" and sq: "send_queue s' = send_queue s1"
        and st: "channel_status s' = (channel_status s)(R2A_TAIL_OFFSET := nt)"
      for s' ws
    proof -
      have c3: "sram_payload ws = serialize_all sent"
        using cat by (simp add: buf_def sram_payload_def)
      have c5: "pending s = mset sent + pending s'" using pend ch by (simp add: pending_def)
      have fp: "front_packet s' = front_packet s1" unfolding front_packet_def ch sq by (rule refl)
      have c6: "(case front_packet s' of
          None \<Rightarrow> send_queue s' = []
        | Some (cid, pb) \<Rightarrow>
          255 - r2a_len s - int (length (serialize_all sent)) < 3 + int (length (pb_data pb)))"
        using stop unfolding fp sq .
      have c7: "r2a_len s' = r2a_len s + int (length (serialize_all sent))"
        using newlen by (simp add: r2a_len_def st head_def n_def buf_def)
      have c8: "r2a_len s' \<le> 255" using c7 c4 by linarith
      have c9: "True = (sent \<noteq> [])" using False ser_empty by (simp add: n_def)
      have cw': "ws = r2a_writes s (serialize_all sent)" using cw by (simp add: buf_def)
      have c5': "service_order s = sent @ service_order s'"
        using ord unfolding service_order_def queue_of_def ch sq .
      have cst: "channel_status s' = (channel_status s)
         (R2A_TAIL_OFFSET :=
            of_nat ((unat (channel_status s R2A_TAIL_OFFSET) + length (serialize_all sent)) mod 256))"
        using st nt_nat by (simp add: t_def buf_def)
      show ?thesis
        by (rule exI [of _ True], rule exI [of _ s'], rule exI [of _ sent], rule exI [of _ ws])
           (intro conjI c1 c2 cw' c3 c4 c5 c5' c6 c7 c8 cst c9)
    qed
    have bne: "buf \<noteq> []" using npos nlen by auto
    have et: "(of_int tail :: uint32_t) = of_nat t" unfolding t(1) by simp
    have drop3 [simp]: "drop 3 (tr_tx (r2a_write s i bs)) = bs" for i bs
      by (simp add: r2a_write_def sram_write_frame_def)
    show ?thesis
    proof (cases "256 - tail < n")
      case True
      define a where "a = 256 - t"
      define m where "m = length buf - a"
      have a_b: "0 < a" "a \<le> 256" "a < length buf" "int a = 256 - tail"
        using t True nlen by (simp_all add: a_def)
      have m_b: "0 < m" "m \<le> 256" "m \<le> length (drop a buf)" "int m = n - (256 - tail)"
        using a_b nle nlen by (simp_all add: m_def)
      define t1 where "t1 = r2a_write s t (take a buf)"
      define s2 where "s2 = transfer (tr_tx t1) (tr_len t1) s1"
      define t2 where "t2 = r2a_write s 0 (drop a buf)"
      define s3 where "s3 = transfer (tr_tx t2) (tr_len t2) s2"
      define s' where "s' = s3\<lparr>channel_status := (channel_status s3)(R2A_TAIL_OFFSET := of_int ((0 + int m) AND 255)),
          channel_status_updated := channel_status_updated s3 OR A_EVENT_R2A_TAIL\<rparr>"
      have na: "nat (256 - tail) = a" unfolding a_b(4) [symmetric] by simp
      have ea: "(of_int (256 - tail) :: uint32_t) = of_nat a"
        unfolding a_b(4) [symmetric] by simp
      have em: "(of_int (n - (256 - tail)) :: uint32_t) = of_nat m"
        unfolding m_b(4) [symmetric] by simp
      have w1: "spi_write_mem (base_address s1 + 260 + of_int tail) buf (of_int (256 - tail)) s1 = Inr s2"
        unfolding ea et s2_def t1_def r2a_write_def base1
        using spi_write_mem_r2a [of t a buf "base_address s" s1] t a_b by simp
      have base2: "base_address s2 = base_address s" by (simp add: s2_def base1)
      have "take m (drop a buf) = drop a buf" using m_b by (simp add: m_def)
      then have w2: "spi_write_mem (base_address s2 + 260 + of_int 0) (drop a buf) (of_int (n - (256 - tail))) s2 = Inr s3"
        unfolding em s3_def t2_def r2a_write_def base2
        using spi_write_mem_r2a [of 0 m "drop a buf" "base_address s" s2] m_b(1,2,3) by simp
      have c1: "flush_send_queue s = Inr (True, s')"
        unfolding flush_send_queue_def Let_def tail_def [symmetric] head_def [symmetric] run'
          bindE_simps prod.case n_def [symmetric]
        using False True w1 w2 m_b(4) na by (simp add: s'_def)
      have c2: "spi_log s' = spi_log s @ [t1, t2]"
        by (simp add: s'_def s3_def s2_def cs1)
      have cat: "concat (map (\<lambda>t. drop 3 (tr_tx t)) [t1, t2]) = buf"
        by (simp add: t1_def t2_def)
      have big: "\<not> t + length buf \<le> 256" using a_b by (simp add: a_def)
      have cw: "[t1, t2] = r2a_writes s buf"
        using big bne by (simp add: r2a_writes_def t_def [symmetric] t1_def t2_def a_def)
      have "(of_int ((0 + int m) AND 255) :: uint8_t) = nt"
      proof -
        have "tail + n = int m + 1 * 256" using m_b(4) by simp
        then have "(tail + n) mod 256 = (int m + 1 * 256) mod 256" by (simp only:)
        also have "\<dots> = int m mod 256" by simp
        finally show ?thesis by (simp add: nt_def and_255)
      qed
      then have st: "channel_status s' = (channel_status s)(R2A_TAIL_OFFSET := nt)"
        by (simp add: s'_def s3_def s2_def cs1)
      have chq: "channels s' = channels s1" "send_queue s' = send_queue s1"
        by (simp_all add: s'_def s3_def s2_def)
      show ?thesis by (rule finish [OF c1 c2 cw cat chq st])
    next
      case nowrap: False
      define t1 where "t1 = r2a_write s t buf"
      define s3 where "s3 = transfer (tr_tx t1) (tr_len t1) s1"
      define s' where "s' = s3\<lparr>channel_status := (channel_status s3)(R2A_TAIL_OFFSET := of_int ((tail + n) AND 255)),
          channel_status_updated := channel_status_updated s3 OR A_EVENT_R2A_TAIL\<rparr>"
      have ln: "0 < length buf" "length buf \<le> 256" "int (length buf) = n"
        using npos nle nlen by simp_all
      have en: "(of_int n :: uint32_t) = of_nat (length buf)"
        unfolding ln(3) [symmetric] by simp
      have w: "spi_write_mem (base_address s1 + 260 + of_int tail) buf (of_int n) s1 = Inr s3"
        unfolding en et s3_def t1_def r2a_write_def base1
        using spi_write_mem_r2a [of t "length buf" buf "base_address s" s1] t ln(1,2) by simp
      have c1: "flush_send_queue s = Inr (True, s')"
        unfolding flush_send_queue_def Let_def tail_def [symmetric] head_def [symmetric] run'
          bindE_simps prod.case n_def [symmetric]
        using False nowrap w by (simp add: s'_def)
      have c2: "spi_log s' = spi_log s @ [t1]"
        by (simp add: s'_def s3_def cs1)
      have cat: "concat (map (\<lambda>t. drop 3 (tr_tx t)) [t1]) = buf"
        by (simp add: t1_def)
      have small: "t + length buf \<le> 256" using nowrap t ln by simp
      have cw: "[t1] = r2a_writes s buf"
        using small bne by (simp add: r2a_writes_def t_def [symmetric] t1_def)
      have st: "channel_status s' = (channel_status s)(R2A_TAIL_OFFSET := nt)"
        by (simp add: s'_def s3_def cs1 nt_def)
      have chq: "channels s' = channels s1" "send_queue s' = send_queue s1"
        by (simp_all add: s'_def s3_def)
      show ?thesis by (rule finish [OF c1 c2 cw cat chq st])
    qed
  qed
qed

lemma flush_blocked:
  assumes fp: "front_packet s = Some (cid, pb)"
    and big: "255 - r2a_len s < 3 + int (length (pb_data pb))"
  shows "flush_send_queue s = Inr (False, s)"
proof -
  from fp obtain p rest ch pq where sq: "send_queue s = p # rest"
    and ch: "map_of (channels s) p = Some ch" and pq: "packet_queue ch = pb # pq"
    by (auto simp: front_packet_def split: list.splits option.splits)
  have "flush_loop (255 - r2a_len s) [] s = Inr ([], s)"
    using sq ch pq big by (subst flush_loop.simps) simp
  then show ?thesis
    by (simp add: flush_send_queue_def Let_def r2a_len_def)
qed


subsection \<open>The invariant is kept by every function\<close>

lemma deref_simps:
  "deref xs p = Inr x \<longleftrightarrow> map_of xs p = Some x"
  "deref xs p = Inl e \<longleftrightarrow> map_of xs p = None \<and> e = Undefined"
  by (auto simp: deref_def split: option.splits)

lemma bindE_eq_Inr: "bindE m f = Inr y \<longleftrightarrow> (\<exists>x. m = Inr x \<and> f x = Inr y)"
  by (cases m) simp_all

lemma modify_id [simp]: "modify p (\<lambda>x. x) xs = xs"
  by (induction xs) (auto simp: modify_def)

text \<open>What became of a message: the three ways create_and_send_msg returns.\<close>

lemma create_and_send_msg_Inr:
  assumes "create_and_send_msg c t sid d l s = Inr s'"
  obtains cc bytes f rs log where
    "map_of (connections s) c = Some cc" "0 \<le> l" "copy_bytes d (nat l) = Inr bytes"
    "s' = s\<lparr>connections := modify c f (connections s), sys_write := rs,
            sys_write_log := sys_write_log s @ log\<rparr>"
    "\<And>x. f x = x\<lparr>message_queue := message_queue (f x)\<rparr>"
    "message_queue cc \<noteq> [] \<Longrightarrow> rs = sys_write s \<and> log = [] \<and>
       f = (\<lambda>x. x\<lparr>message_queue := message_queue x @
                [\<lparr>mb_pos = 0, mb_data = encode_header l sid t @ bytes\<rparr>]\<rparr>)"
    "message_queue cc = [] \<Longrightarrow> \<exists>out.
       write_loop (fd cc) \<lparr>mb_pos = 0, mb_data = encode_header l sid t @ bytes\<rparr> (sys_write s)
         = Inr (out, rs, log) \<and>
       f = (case out of Queued mb' \<Rightarrow> (\<lambda>x. x\<lparr>message_queue := message_queue x @ [mb']\<rparr>)
            | _ \<Rightarrow> (\<lambda>x. x))"
proof -
  from assms obtain cc where cc: "map_of (connections s) c = Some cc"
    by (auto simp: create_and_send_msg_def bindE_eq_Inr deref_simps)
  from assms cc have l: "0 \<le> l"
    by (auto simp: create_and_send_msg_def deref_def split: if_splits)
  with assms cc obtain bytes where bytes: "copy_bytes d (nat l) = Inr bytes"
    by (auto simp: create_and_send_msg_def deref_def bindE_eq_Inr)
  let ?mb = "\<lparr>mb_pos = 0, mb_data = encode_header l sid t @ bytes\<rparr>"
  show ?thesis
  proof (cases "message_queue cc = []")
    case False
    with assms cc l bytes
    have "s' = s\<lparr>connections := modify c (\<lambda>x. x\<lparr>message_queue := message_queue x @ [?mb]\<rparr>) (connections s),
                 sys_write := sys_write s, sys_write_log := sys_write_log s @ []\<rparr>"
      by (auto simp add: create_and_send_msg_def deref_def Let_def)
    with False show ?thesis by (intro that [OF cc l bytes]) simp_all
  next
    case True
    with assms cc l bytes obtain out rs log where
      wl: "write_loop (fd cc) ?mb (sys_write s) = Inr (out, rs, log)"
      by (auto simp: create_and_send_msg_def deref_def Let_def bindE_eq_Inr)
    let ?f = "case out of Queued mb' \<Rightarrow> (\<lambda>x. x\<lparr>message_queue := message_queue x @ [mb']\<rparr>)
            | _ \<Rightarrow> (\<lambda>x::ClientConnection. x)"
    from assms cc l bytes True wl
    have "s' = s\<lparr>connections := modify c ?f (connections s), sys_write := rs,
            sys_write_log := sys_write_log s @ log\<rparr>"
      by (cases out) (auto simp add: create_and_send_msg_def deref_def Let_def)
    moreover have "?f x = x\<lparr>message_queue := message_queue (?f x)\<rparr>" for x
      by (cases out) simp_all
    ultimately show ?thesis using True wl by (intro that [OF cc l bytes]) auto
  qed
qed

lemma create_and_send_msg_frame:
  assumes "create_and_send_msg c t sid d l s = Inr s'"
  shows "s' = s\<lparr>connections := connections s', sys_write := sys_write s',
                sys_write_log := sys_write_log s'\<rparr>"
  using assms by (elim create_and_send_msg_Inr) simp



lemma send_queue_ok_update [simp]:
  "send_queue_ok (s\<lparr>have_base_address := a0\<rparr>) = send_queue_ok s"
  "send_queue_ok (s\<lparr>base_address := a1\<rparr>) = send_queue_ok s"
  "send_queue_ok (s\<lparr>channel_status := a2\<rparr>) = send_queue_ok s"
  "send_queue_ok (s\<lparr>channel_status_updated := a3\<rparr>) = send_queue_ok s"
  "send_queue_ok (s\<lparr>rx_buf := a4\<rparr>) = send_queue_ok s"
  "send_queue_ok (s\<lparr>recv_buf := a5\<rparr>) = send_queue_ok s"
  "send_queue_ok (s\<lparr>connections := a6\<rparr>) = send_queue_ok s"
  "send_queue_ok (s\<lparr>services := a7\<rparr>) = send_queue_ok s"
  "send_queue_ok (s\<lparr>on_demand_services := a10\<rparr>) = send_queue_ok s"
  "send_queue_ok (s\<lparr>next_ptr := a11\<rparr>) = send_queue_ok s"
  "send_queue_ok (s\<lparr>spi_rx := a12\<rparr>) = send_queue_ok s"
  "send_queue_ok (s\<lparr>spi_log := a13\<rparr>) = send_queue_ok s"
  "send_queue_ok (s\<lparr>sys_write := a14\<rparr>) = send_queue_ok s"
  "send_queue_ok (s\<lparr>sys_write_log := a15\<rparr>) = send_queue_ok s"
  "send_queue_ok (s\<lparr>sys_read := a16\<rparr>) = send_queue_ok s"
  "send_queue_ok (s\<lparr>sys_launch := a17\<rparr>) = send_queue_ok s"
  "send_queue_ok (s\<lparr>sys_close_log := a18\<rparr>) = send_queue_ok s"
  by (simp_all add: send_queue_ok_def)

lemma channels_ok_update [simp]:
  "channels_ok (s\<lparr>have_base_address := a0\<rparr>) = channels_ok s"
  "channels_ok (s\<lparr>base_address := a1\<rparr>) = channels_ok s"
  "channels_ok (s\<lparr>channel_status := a2\<rparr>) = channels_ok s"
  "channels_ok (s\<lparr>channel_status_updated := a3\<rparr>) = channels_ok s"
  "channels_ok (s\<lparr>rx_buf := a4\<rparr>) = channels_ok s"
  "channels_ok (s\<lparr>recv_buf := a5\<rparr>) = channels_ok s"
  "channels_ok (s\<lparr>connections := a6\<rparr>) = channels_ok s"
  "channels_ok (s\<lparr>services := a7\<rparr>) = channels_ok s"
  "channels_ok (s\<lparr>send_queue := a9\<rparr>) = channels_ok s"
  "channels_ok (s\<lparr>on_demand_services := a10\<rparr>) = channels_ok s"
  "channels_ok (s\<lparr>spi_rx := a12\<rparr>) = channels_ok s"
  "channels_ok (s\<lparr>spi_log := a13\<rparr>) = channels_ok s"
  "channels_ok (s\<lparr>sys_write := a14\<rparr>) = channels_ok s"
  "channels_ok (s\<lparr>sys_write_log := a15\<rparr>) = channels_ok s"
  "channels_ok (s\<lparr>sys_read := a16\<rparr>) = channels_ok s"
  "channels_ok (s\<lparr>sys_launch := a17\<rparr>) = channels_ok s"
  "channels_ok (s\<lparr>sys_close_log := a18\<rparr>) = channels_ok s"
  by (simp_all add: channels_ok_def)

lemma daemon_invI:
  "send_queue_ok s' \<Longrightarrow> map fst (channels s') = map fst (channels s) \<Longrightarrow>
   next_ptr s \<le> next_ptr s' \<Longrightarrow> services s' = services s \<Longrightarrow> daemon_inv s \<Longrightarrow> daemon_inv s'"
  by (auto simp: daemon_inv_def channels_ok_def)

lemma daemon_inv_cong:
  "channels s' = channels s \<Longrightarrow> send_queue s' = send_queue s \<Longrightarrow> next_ptr s' \<ge> next_ptr s \<Longrightarrow>
   services s' = services s \<Longrightarrow> daemon_inv s \<Longrightarrow> daemon_inv s'"
  by (rule daemon_invI [of s' s]) (simp_all add: daemon_inv_def send_queue_ok_def)

lemma send_queue_ok_modify:
  assumes "send_queue_ok s" and "\<And>ch. packet_queue (f ch) = packet_queue ch"
    and "channels s' = modify p f (channels s)" and "send_queue s' = send_queue s"
  shows "send_queue_ok s'"
proof -
  have "\<exists>ch. map_of (channels s') q = Some ch \<and> packet_queue ch \<noteq> []"
    if "q \<in> set (send_queue s)" for q
    using that assms(1,2) by (auto simp: send_queue_ok_def assms(3) map_of_modify)
  then show ?thesis using assms by (simp add: send_queue_ok_def)
qed

lemma daemon_inv_modify:
  assumes "daemon_inv s" and "\<And>ch. packet_queue (f ch) = packet_queue ch"
    and "channels s' = modify p f (channels s)" and "send_queue s' = send_queue s"
    and "next_ptr s' = next_ptr s" and "services s' = services s"
  shows "daemon_inv s'"
proof (rule daemon_invI [OF _ _ _ _ assms(1)])
  show "send_queue_ok s'"
    using assms(1) by (intro send_queue_ok_modify [OF _ assms(2,3,4)]) (simp add: daemon_inv_def)
qed (simp_all add: assms)

lemma create_and_send_msg_fields:
  assumes "create_and_send_msg c t sid d l s = Inr s'"
  shows "channels s' = channels s" "send_queue s' = send_queue s" "services s' = services s"
    "next_ptr s' = next_ptr s" "spi_log s' = spi_log s" "spi_rx s' = spi_rx s"
    "have_base_address s' = have_base_address s" "base_address s' = base_address s"
    "channel_status s' = channel_status s" "channel_status_updated s' = channel_status_updated s"
    "on_demand_services s' = on_demand_services s" "sys_launch s' = sys_launch s"
    "sys_read s' = sys_read s" "rx_buf s' = rx_buf s" "recv_buf s' = recv_buf s"
    "sys_close_log s' = sys_close_log s"
  using assms by (elim create_and_send_msg_Inr; simp)+

lemma create_and_send_msg_inv:
  "daemon_inv s \<Longrightarrow> create_and_send_msg c t sid d l s = Inr s' \<Longrightarrow> daemon_inv s'"
  by (erule daemon_inv_cong [rotated -1]) (simp_all add: create_and_send_msg_fields)


lemma remove_association_Inr:
  assumes "remove_association p s = Inr s'"
  obtains ch c cc where "map_of (channels s) p = Some ch" "association ch = Some c"
    "map_of (connections s) c = Some cc" "p \<in> set (associations cc)"
    "s' = s\<lparr>connections := modify c (\<lambda>x. x\<lparr>associations := remove1 p (associations cc)\<rparr>) (connections s),
            channels := modify p (\<lambda>x. x\<lparr>association := None, stream_id := 0\<rparr>) (channels s)\<rparr>"
  using assms
  by (auto simp: remove_association_def bindE_eq_Inr deref_simps erase_find_def
      split: option.splits if_splits)

lemma remove_association_inv:
  "daemon_inv s \<Longrightarrow> remove_association p s = Inr s' \<Longrightarrow> daemon_inv s'"
  by (erule remove_association_Inr,
      erule daemon_inv_modify [where p = p and f = "\<lambda>x. x\<lparr>association := None, stream_id := 0\<rparr>"])
     simp_all

lemma clear_packet_queue_Inr:
  assumes "clear_packet_queue p s = Inr s'"
  obtains ch where "map_of (channels s) p = Some ch" "packet_queue ch = []" "s' = s"
  | ch where "map_of (channels s) p = Some ch" "packet_queue ch \<noteq> []" "p \<in> set (send_queue s)"
      "s' = s\<lparr>channels := modify p (\<lambda>x. x\<lparr>packet_queue := []\<rparr>) (channels s),
              send_queue := remove1 p (send_queue s)\<rparr>"
proof -
  from assms obtain ch where ch: "map_of (channels s) p = Some ch"
    by (auto simp: clear_packet_queue_def bindE_eq_Inr deref_simps)
  show ?thesis
  proof (cases "packet_queue ch = []")
    case True
    with assms ch have "s' = s" by (simp add: clear_packet_queue_def deref_def)
    with ch True show ?thesis by (rule that(1))
  next
    case False
    with assms ch have "p \<in> set (send_queue s)"
      by (simp add: clear_packet_queue_def deref_def erase_find_def split: if_splits)
    moreover from this assms ch False
    have "s' = s\<lparr>channels := modify p (\<lambda>x. x\<lparr>packet_queue := []\<rparr>) (channels s),
              send_queue := remove1 p (send_queue s)\<rparr>"
      by (simp add: clear_packet_queue_def deref_def erase_find_def)
    ultimately show ?thesis using ch False by (intro that(2))
  qed
qed

lemma clear_packet_queue_send_queue_ok:
  assumes "send_queue_ok s" and "clear_packet_queue p s = Inr s'"
  shows "send_queue_ok s'"
  using assms(2)
proof (cases rule: clear_packet_queue_Inr)
  case (1 ch)
  with assms(1) show ?thesis by simp
next
  case (2 ch)
  from assms(1) have d: "distinct (send_queue s)" by (simp add: send_queue_ok_def)
  have "\<exists>c. map_of (channels s') q = Some c \<and> packet_queue c \<noteq> []"
    if "q \<in> set (send_queue s')" for q
  proof -
    from that d 2(4) have "q \<noteq> p" "q \<in> set (send_queue s)" by auto
    with assms(1) show ?thesis by (auto simp: send_queue_ok_def 2(4) map_of_modify)
  qed
  with d show ?thesis by (simp add: send_queue_ok_def 2(4))
qed

lemma create_and_enqueue_packet_Inr:
  assumes "create_and_enqueue_packet p t d l s = Inr s'"
  obtains ch bytes where "map_of (channels s) p = Some ch" "copy_bytes d (unat l) = Inr bytes"
    "s' = s\<lparr>send_queue := (if packet_queue ch = [] then send_queue s @ [p] else send_queue s),
            channels := modify p (\<lambda>x. x\<lparr>packet_queue :=
               packet_queue x @ [\<lparr>pb_type = uint t, pb_data = bytes\<rparr>]\<rparr>) (channels s)\<rparr>"
  using assms
  by (auto simp: create_and_enqueue_packet_def bindE_eq_Inr deref_simps)

lemma create_and_enqueue_packet_send_queue_ok:
  assumes "send_queue_ok s" and "create_and_enqueue_packet p t d l s = Inr s'"
  shows "send_queue_ok s'"
  using assms(2)
proof (cases rule: create_and_enqueue_packet_Inr)
  case (1 ch bytes)
  have fresh: "p \<notin> set (send_queue s)" if "packet_queue ch = []"
    using that assms(1) 1(1) by (auto simp: send_queue_ok_def)
  have "\<exists>c. map_of (channels s') q = Some c \<and> packet_queue c \<noteq> []"
    if "q \<in> set (send_queue s')" for q
  proof (cases "q = p")
    case True
    then show ?thesis using 1(1) by (simp add: 1(3) map_of_modify)
  next
    case False
    with that have "q \<in> set (send_queue s)" by (auto simp: 1(3) split: if_splits)
    with assms(1) False show ?thesis by (auto simp: send_queue_ok_def 1(3) map_of_modify)
  qed
  moreover have "distinct (send_queue s')"
    using assms(1) fresh by (auto simp: send_queue_ok_def 1(3))
  ultimately show ?thesis by (simp add: send_queue_ok_def)
qed

lemma clear_packet_queue_fields:
  assumes "clear_packet_queue p s = Inr s'"
  shows "map fst (channels s') = map fst (channels s)" "services s' = services s"
    "next_ptr s' = next_ptr s" "connections s' = connections s"
  using assms by (elim clear_packet_queue_Inr; simp)+

lemma create_and_enqueue_packet_fields:
  assumes "create_and_enqueue_packet p t d l s = Inr s'"
  shows "map fst (channels s') = map fst (channels s)" "services s' = services s"
    "next_ptr s' = next_ptr s" "connections s' = connections s"
  using assms by (elim create_and_enqueue_packet_Inr; simp)+

lemma clear_packet_queue_inv:
  "daemon_inv s \<Longrightarrow> clear_packet_queue p s = Inr s' \<Longrightarrow> daemon_inv s'"
  by (rule daemon_invI [of s' s])
     (simp_all add: clear_packet_queue_fields clear_packet_queue_send_queue_ok [of s p s']
        daemon_inv_def)

lemma create_and_enqueue_packet_inv:
  "daemon_inv s \<Longrightarrow> create_and_enqueue_packet p t d l s = Inr s' \<Longrightarrow> daemon_inv s'"
  by (rule daemon_invI [of s' s])
     (simp_all add: create_and_enqueue_packet_fields
        create_and_enqueue_packet_send_queue_ok [of s p t d l s'] daemon_inv_def)


lemma bindE_InrE:
  assumes "bindE m f = Inr y"
  obtains x where "m = Inr x" "f x = Inr y"
  using assms by (auto simp: bindE_eq_Inr)

lemma daemon_inv_update [simp]:
  "daemon_inv (s\<lparr>have_base_address := a1\<rparr>) = daemon_inv s"
  "daemon_inv (s\<lparr>base_address := a2\<rparr>) = daemon_inv s"
  "daemon_inv (s\<lparr>channel_status := a3\<rparr>) = daemon_inv s"
  "daemon_inv (s\<lparr>channel_status_updated := a4\<rparr>) = daemon_inv s"
  "daemon_inv (s\<lparr>rx_buf := a5\<rparr>) = daemon_inv s"
  "daemon_inv (s\<lparr>recv_buf := a6\<rparr>) = daemon_inv s"
  "daemon_inv (s\<lparr>connections := a7\<rparr>) = daemon_inv s"
  "daemon_inv (s\<lparr>on_demand_services := a8\<rparr>) = daemon_inv s"
  "daemon_inv (s\<lparr>spi_rx := a9\<rparr>) = daemon_inv s"
  "daemon_inv (s\<lparr>spi_log := a10\<rparr>) = daemon_inv s"
  "daemon_inv (s\<lparr>sys_write := a11\<rparr>) = daemon_inv s"
  "daemon_inv (s\<lparr>sys_write_log := a12\<rparr>) = daemon_inv s"
  "daemon_inv (s\<lparr>sys_read := a13\<rparr>) = daemon_inv s"
  "daemon_inv (s\<lparr>sys_launch := a14\<rparr>) = daemon_inv s"
  "daemon_inv (s\<lparr>sys_close_log := a15\<rparr>) = daemon_inv s"
  by (simp_all add: daemon_inv_def send_queue_ok_def channels_ok_def)

lemma transfer_inv [simp]: "daemon_inv (transfer tx n s) = daemon_inv s"
  by (simp add: transfer_def Let_def split: list.splits)

lemma spi_inv [simp]:
  "daemon_inv (spi_read_mem a l s) = daemon_inv s"
  "daemon_inv (snd (spi_read_cmem a s)) = daemon_inv s"
  "daemon_inv (spi_write_cmem a v s) = daemon_inv s"
  by (simp_all add: spi_read_mem_def spi_read_cmem_def spi_write_cmem_def Let_def)

lemma spi_write_mem_inv: "spi_write_mem a b l s = Inr s' \<Longrightarrow> daemon_inv s' = daemon_inv s"
  by (auto simp: spi_write_mem_def split: if_splits)

lemma daemon_inv_services_update [simp]:
  "daemon_inv (s\<lparr>services := xs\<rparr>) \<longleftrightarrow>
     send_queue_ok s \<and> channels_ok s \<and> distinct (map srv_name xs)"
  by (simp add: daemon_inv_def send_queue_ok_def channels_ok_def)

lemma remove_channel_inv:
  assumes "daemon_inv s"
  shows "daemon_inv (remove_channel_if_not_associated_and_empty_pq cid s)"
proof -
  let ?s' = "remove_channel_if_not_associated_and_empty_pq cid s"
  let ?xs = "channels s" and ?ys = "remove_channel_loop cid (channels s)"
  have ys: "channels ?s' = ?ys" "send_queue ?s' = send_queue s" "next_ptr ?s' = next_ptr s"
    "services ?s' = services s"
    by (simp_all add: remove_channel_if_not_associated_and_empty_pq_def)
  from assms have d: "distinct (map fst ?xs)" and b: "\<forall>p \<in> set (map fst ?xs). p < next_ptr s"
    and sq: "send_queue_ok s" and n: "distinct (map srv_name (services s))"
    unfolding daemon_inv_def channels_ok_def by blast+
  have sub: "set (map fst ?ys) \<subseteq> set (map fst ?xs)"
    using remove_channel_loop_subset [of cid ?xs] by auto
  have "\<exists>ch. map_of ?ys q = Some ch \<and> packet_queue ch \<noteq> []" if "q \<in> set (send_queue s)" for q
  proof -
    from sq that obtain ch where "map_of ?xs q = Some ch" "packet_queue ch \<noteq> []"
      unfolding send_queue_ok_def by blast
    then show ?thesis using remove_channel_loop_keeps [OF d, of q ch cid] by blast
  qed
  then have "send_queue_ok ?s'"
    using sq unfolding send_queue_ok_def ys by blast
  moreover have "channels_ok ?s'"
    unfolding channels_ok_def ys using remove_channel_loop_distinct [OF d, of cid] sub b by blast
  ultimately show ?thesis unfolding daemon_inv_def ys using n by blast
qed

lemma find_None_name: "find (\<lambda>srv. srv_name srv = n) xs = None \<Longrightarrow> n \<notin> set (map srv_name xs)"
  by (auto simp: find_None_iff)

lemma handle_msg_register_req_inv:
  assumes "daemon_inv s" and "handle_msg_register_req c s = Inr s'"
  shows "daemon_inv s'"
proof -
  from assms(2) obtain cc where cc: "map_of (connections s) c = Some cc"
    by (auto simp: handle_msg_register_req_def bindE_eq_Inr deref_simps)
  from assms(1) have parts: "send_queue_ok s" "channels_ok s" "distinct (map srv_name (services s))"
    unfolding daemon_inv_def by blast+
  show ?thesis
  proof (cases "find (\<lambda>srv. srv_name srv = payload cc) (services s)")
    case None
    let ?s1 = "s\<lparr>services := services s @ [\<lparr>srv_name = payload cc, srv_cc = c\<rparr>]\<rparr>"
    from None have "payload cc \<notin> set (map srv_name (services s))" by (rule find_None_name)
    with parts have "daemon_inv ?s1" by simp
    moreover from assms(2) cc None
    have "create_and_send_msg c MSG_REGISTER_RES 0 (Some [MSG_SUCCESS]) 1 ?s1 = Inr s'"
      by (simp add: handle_msg_register_req_def deref_def Let_def)
    ultimately show ?thesis by (rule create_and_send_msg_inv)
  next
    case (Some a)
    with assms(2) cc
    have "create_and_send_msg c MSG_REGISTER_RES 0 (Some [MSG_FAIL]) 1 s = Inr s'"
      by (simp add: handle_msg_register_req_def deref_def Let_def)
    with assms(1) show ?thesis by (rule create_and_send_msg_inv)
  qed
qed

lemma deregister_loop_names:
  "distinct (map srv_name xs) \<Longrightarrow> distinct (map srv_name (fst (deregister_loop n c xs)))"
  "set (map srv_name (fst (deregister_loop n c xs))) \<subseteq> set (map srv_name xs)"
proof (induction xs)
  case Nil
  { case 1 show ?case by simp }
  { case 2 show ?case by simp }
next
  case (Cons x xs)
  { case 1
    with Cons show ?case by (auto simp del: set_map) }
  { case 2
    with Cons show ?case by auto }
qed

lemma handle_msg_deregister_req_inv:
  assumes "daemon_inv s" and "handle_msg_deregister_req c s = Inr s'"
  shows "daemon_inv s'"
proof -
  from assms(2) obtain cc where cc: "map_of (connections s) c = Some cc"
    by (auto simp: handle_msg_deregister_req_def bindE_eq_Inr deref_simps)
  from assms(1) have parts: "send_queue_ok s" "channels_ok s" "distinct (map srv_name (services s))"
    unfolding daemon_inv_def by blast+
  let ?r = "deregister_loop (payload cc) c (services s)"
  have "daemon_inv (s\<lparr>services := fst ?r\<rparr>)"
    using parts deregister_loop_names(1) [OF parts(3)] by simp
  moreover from assms(2) cc
  have "create_and_send_msg c MSG_DEREGISTER_RES 0 (Some [snd ?r]) 1 (s\<lparr>services := fst ?r\<rparr>) = Inr s'"
    by (simp add: handle_msg_deregister_req_def deref_def split_beta)
  ultimately show ?thesis by (rule create_and_send_msg_inv)
qed


lemma create_and_send_msg_invD:
  "create_and_send_msg c t sid d l s = Inr s' \<Longrightarrow> daemon_inv s \<Longrightarrow> daemon_inv s'"
  by (rule create_and_send_msg_inv)

lemma handle_msg_read_mem_req_inv:
  assumes "daemon_inv s" and "handle_msg_read_mem_req c s = Inr s'"
  shows "daemon_inv s'"
proof -
  from assms(2) obtain t sid d l a n where
    "create_and_send_msg c t sid d l (spi_read_mem a n s) = Inr s'"
    by (auto simp: handle_msg_read_mem_req_def bindE_eq_Inr Let_def split: if_splits)
  moreover have "daemon_inv (spi_read_mem a n s)" using assms(1) by simp
  ultimately show ?thesis by (rule create_and_send_msg_invD)
qed

lemma handle_msg_write_mem_req_inv:
  assumes "daemon_inv s" and "handle_msg_write_mem_req c s = Inr s'"
  shows "daemon_inv s'"
proof -
  from assms(2) obtain t sid d l a b n s1 where
    "spi_write_mem a b n s = Inr s1" "create_and_send_msg c t sid d l s1 = Inr s'"
    by (auto simp: handle_msg_write_mem_req_def bindE_eq_Inr Let_def split: if_splits)
  moreover from this(1) have "daemon_inv s1" using assms(1) by (simp add: spi_write_mem_inv)
  ultimately show ?thesis by (auto dest: create_and_send_msg_invD)
qed

lemma handle_msg_connect_response_inv:
  assumes "daemon_inv s" and "handle_msg_connect_response c s = Inr s'"
  shows "daemon_inv s'"
proof -
  from assms(2) obtain cc found where
    cc: "deref (connections s) c = Inr cc"
    and found: "get_associated_channel_by_stream_id cc (sint (header_stream_id (header cc))) s
        = Inr found"
    unfolding handle_msg_connect_response_def by (elim bindE_InrE) blast
  show ?thesis
  proof (cases found)
    case None
    with cc found assms show ?thesis by (simp add: handle_msg_connect_response_def)
  next
    case (Some p)
    with cc found assms(2) obtain s1 where
      s1: "create_and_enqueue_packet p PKT_CONNECT_RESPONSE (Some (payload cc))
             (of_nat (length (payload cc))) s = Inr s1"
      and fin': "(case payload cc of [] \<Rightarrow> Inl Undefined
                    | b # _ \<Rightarrow> if b \<noteq> CONNECT_OK then remove_association p s1 else Inr s1) = Inr s'"
      by (auto simp: handle_msg_connect_response_def bindE_eq_Inr)
    from fin' have fin: "s' = s1 \<or> remove_association p s1 = Inr s'"
      by (cases "payload cc") (auto split: if_splits)
    from assms(1) s1 have "daemon_inv s1" by (rule create_and_enqueue_packet_inv)
    with fin show ?thesis by (auto intro: remove_association_inv)
  qed
qed

lemma handle_msg_data_inv:
  assumes "daemon_inv s" and "handle_msg_data c s = Inr s'"
  shows "daemon_inv s'"
  using assms
  by (auto simp: handle_msg_data_def bindE_eq_Inr split: option.splits
      intro: create_and_enqueue_packet_inv)

lemma handle_msg_eos_inv:
  assumes "daemon_inv s" and "handle_msg_eos c s = Inr s'"
  shows "daemon_inv s'"
proof -
  from assms(2) consider "s' = s"
    | p s1 where "create_and_enqueue_packet p PKT_EOS None 0
          (s\<lparr>channels := modify p (\<lambda>ch. ch\<lparr>got_eos_from_client := True\<rparr>) (channels s)\<rparr>) = Inr s1"
        "s' = s1 \<or> remove_association p s1 = Inr s'"
    by (auto simp: handle_msg_eos_def bindE_eq_Inr split: option.splits if_splits)
  then show ?thesis
  proof cases
    case 1
    with assms(1) show ?thesis by simp
  next
    case (2 p s1)
    have "daemon_inv (s\<lparr>channels := modify p (\<lambda>ch. ch\<lparr>got_eos_from_client := True\<rparr>) (channels s)\<rparr>)"
      by (rule daemon_inv_modify [OF assms(1), where p = p and f = "\<lambda>ch. ch\<lparr>got_eos_from_client := True\<rparr>"])
         simp_all
    from this 2(1) have "daemon_inv s1" by (rule create_and_enqueue_packet_inv)
    with 2(2) show ?thesis by (auto intro: remove_association_inv)
  qed
qed

lemma handle_msg_reset_inv:
  assumes "daemon_inv s" and "handle_msg_reset c s = Inr s'"
  shows "daemon_inv s'"
proof -
  from assms(2) consider "s' = s"
    | p s1 s2 where "remove_association p s = Inr s1" "clear_packet_queue p s1 = Inr s2"
        "create_and_enqueue_packet p PKT_RESET None 0 s2 = Inr s'"
    by (auto simp: handle_msg_reset_def bindE_eq_Inr split: option.splits)
  then show ?thesis
  proof cases
    case 1
    with assms(1) show ?thesis by simp
  next
    case (2 p s1 s2)
    from assms(1) 2(1) have "daemon_inv s1" by (rule remove_association_inv)
    from this 2(2) have "daemon_inv s2" by (rule clear_packet_queue_inv)
    from this 2(3) show ?thesis by (rule create_and_enqueue_packet_inv)
  qed
qed

lemma handle_received_message_inv:
  assumes "daemon_inv s" and "handle_received_message c s = Inr s'"
  shows "daemon_inv s'"
  using assms unfolding handle_received_message_def Let_def handle_msg_connect_def
  by (elim bindE_InrE)
     (simp split: if_splits,
      (blast intro: handle_msg_register_req_inv handle_msg_deregister_req_inv
        handle_msg_read_mem_req_inv handle_msg_write_mem_req_inv handle_msg_connect_response_inv
        handle_msg_data_inv handle_msg_eos_inv handle_msg_reset_inv)+)


lemma daemon_inv_modify_channels:
  "daemon_inv s \<Longrightarrow> (\<And>ch. packet_queue (f ch) = packet_queue ch) \<Longrightarrow>
   daemon_inv (s\<lparr>channels := modify p f (channels s)\<rparr>)"
  by (erule daemon_inv_modify [where p = p and f = f]) simp_all

lemma close_associations_loop_inv:
  "daemon_inv s \<Longrightarrow> close_associations_loop c ps s = Inr s' \<Longrightarrow> daemon_inv s'"
proof (induction ps arbitrary: s)
  case Nil
  then show ?case by simp
next
  case (Cons p ps)
  from Cons.prems(2) obtain s1 s2 where
    s1: "clear_packet_queue p s = Inr s1"
    and s2: "create_and_enqueue_packet p PKT_RESET None 0 s1 = Inr s2"
    and rest: "close_associations_loop c ps
        (s2\<lparr>channels := modify p (\<lambda>ch. ch\<lparr>association := None, stream_id := 0\<rparr>) (channels s2),
            connections := modify c (\<lambda>cc. cc\<lparr>associations := ps\<rparr>) (connections s2)\<rparr>) = Inr s'"
    by (auto simp: bindE_eq_Inr)
  from Cons.prems(1) s1 have "daemon_inv s1" by (rule clear_packet_queue_inv)
  from this s2 have "daemon_inv s2" by (rule create_and_enqueue_packet_inv)
  then have "daemon_inv (s2\<lparr>channels := modify p (\<lambda>ch. ch\<lparr>association := None, stream_id := 0\<rparr>) (channels s2),
            connections := modify c (\<lambda>cc. cc\<lparr>associations := ps\<rparr>) (connections s2)\<rparr>)"
    by (simp add: daemon_inv_modify_channels)
  from Cons.IH [OF this rest] show ?case .
qed

lemma close_associations_loop_invD:
  "close_associations_loop c ps s = Inr s' \<Longrightarrow> daemon_inv s \<Longrightarrow> daemon_inv s'"
  by (rule close_associations_loop_inv)

lemma daemon_inv_filter_services:
  "daemon_inv s \<Longrightarrow>
   daemon_inv (s\<lparr>sys_close_log := l, services := filter P (services s)\<rparr>)"
  by (simp add: daemon_inv_def distinct_map_filter)

lemma close_and_remove_connection_inv:
  "daemon_inv s \<Longrightarrow> close_and_remove_connection c s = Inr s' \<Longrightarrow> daemon_inv s'"
  unfolding close_and_remove_connection_def
  by (elim bindE_InrE)
     (auto elim!: close_associations_loop_invD simp: daemon_inv_filter_services
        simp del: daemon_inv_services_update)

lemma associate_and_notify_inv:
  "daemon_inv s \<Longrightarrow> associate_and_notify p c data plen s = Inr s' \<Longrightarrow> daemon_inv s'"
  unfolding associate_and_notify_def
  by (elim bindE_InrE)
     (auto split: if_splits elim!: create_and_send_msg_invD simp: daemon_inv_modify_channels)

lemma daemon_inv_new_channel:
  assumes "daemon_inv s"
  shows "daemon_inv (s\<lparr>channels := channels s @ [(next_ptr s, ch)], next_ptr := Suc (next_ptr s)\<rparr>)"
proof -
  let ?s1 = "s\<lparr>channels := channels s @ [(next_ptr s, ch)], next_ptr := Suc (next_ptr s)\<rparr>"
  from assms have sq: "send_queue_ok s" and d: "distinct (map fst (channels s))"
    and b: "\<forall>p \<in> set (map fst (channels s)). p < next_ptr s"
    and n: "distinct (map srv_name (services s))"
    unfolding daemon_inv_def channels_ok_def by blast+
  have "\<exists>c. map_of (channels ?s1) q = Some c \<and> packet_queue c \<noteq> []"
    if "q \<in> set (send_queue s)" for q
  proof -
    from sq that obtain c where "map_of (channels s) q = Some c" "packet_queue c \<noteq> []"
      unfolding send_queue_ok_def by blast
    then show ?thesis by (simp add: map_add_Some_iff)
  qed
  then have "send_queue_ok ?s1" using sq unfolding send_queue_ok_def by simp
  moreover have "channels_ok ?s1" using d b unfolding channels_ok_def by (auto simp: less_Suc_eq)
  ultimately show ?thesis using n unfolding daemon_inv_def by simp
qed

lemma daemon_inv_next_ptr:
  "daemon_inv s \<Longrightarrow> next_ptr s \<le> n \<Longrightarrow> daemon_inv (s\<lparr>next_ptr := n\<rparr>)"
  by (rule daemon_invI [of _ s]) (simp_all add: daemon_inv_def send_queue_ok_def)

lemma associate_and_notify_invD:
  "associate_and_notify p c data plen s = Inr s' \<Longrightarrow> daemon_inv s \<Longrightarrow> daemon_inv s'"
  by (rule associate_and_notify_inv)

lemma daemon_inv_launch:
  assumes "daemon_inv s" and "name \<notin> set (map srv_name (services s))"
  shows "daemon_inv (s\<lparr>sys_launch := rs, connections := cs, next_ptr := Suc (next_ptr s),
            services := services s @ [\<lparr>srv_name = name, srv_cc = c\<rparr>]\<rparr>)"
proof -
  have "daemon_inv (s\<lparr>next_ptr := Suc (next_ptr s)\<rparr>)"
    using assms(1) by (rule daemon_inv_next_ptr) simp
  with assms(2) show ?thesis by (simp add: daemon_inv_def channels_ok_def)
qed

lemma handle_pkt_connect_inv:
  assumes "daemon_inv s" and "handle_pkt_connect cid data plen s = Inr s'"
  shows "daemon_inv s'"
proof -
  define ch where "ch = \<lparr>channel_id = cid, association = None, stream_id = 0,
       got_eos_from_ami = False, got_eos_from_client = False, packet_queue = []\<rparr>"
  define s1 where "s1 = s\<lparr>channels := channels s @ [(next_ptr s, ch)], next_ptr := Suc (next_ptr s)\<rparr>"
  define name where "name = take (nat plen) data"
  have inv1: "daemon_inv s1" unfolding s1_def using assms(1) by (rule daemon_inv_new_channel)
  have names: "find (\<lambda>srv. srv_name srv = name) (services s1) = None \<Longrightarrow>
      name \<notin> set (map srv_name (services s1))"
    by (rule find_None_name)
  have p: "next_ptr s1 = Suc (next_ptr s)" by (simp add: s1_def)
  from assms(2) have run: "(case find (\<lambda>srv. srv_name srv = name) (services s1) of
             Some srv \<Rightarrow> associate_and_notify (next_ptr s) (srv_cc srv) data plen s1
           | None \<Rightarrow>
               (case find (\<lambda>e. service_name e = name) (on_demand_services s1) of
                  Some on_demand \<Rightarrow>
                    (case sys_launch s1 of
                       [] \<Rightarrow> Inl Stuck
                     | r # rs \<Rightarrow>
                         if \<not> socketpair_ok r \<or> \<not> fork_ok r \<or> \<not> fcntl_fd_ok r
                            \<or> \<not> fcntl_fl_ok r \<or> \<not> epoll_ctl_ok r
                         then Inl Exit
                         else
                           associate_and_notify (next_ptr s) (next_ptr s1) data plen
                             (s1\<lparr>sys_launch := rs,
                                 connections :=
                                   connections s1 @ [(next_ptr s1, new_connection (launch_fd r))],
                                 next_ptr := Suc (next_ptr s1),
                                 services :=
                                   services s1 @ [\<lparr>srv_name = name, srv_cc = next_ptr s1\<rparr>]\<rparr>))
                | None \<Rightarrow>
                    create_and_enqueue_packet (next_ptr s) PKT_CONNECT_RESPONSE
                      (Some [CONNECT_UNKNOWN_SERVICE]) 1 s1)) = Inr s'"
    unfolding handle_pkt_connect_def Let_def s1_def [symmetric] ch_def [symmetric]
      name_def [symmetric] p
    by (simp split: if_splits)
  show ?thesis
  proof (cases "find (\<lambda>srv. srv_name srv = name) (services s1)")
    case (Some srv)
    with run inv1 show ?thesis by (auto intro: associate_and_notify_inv)
  next
    case None
    note no_service = this
    show ?thesis
    proof (cases "find (\<lambda>e. service_name e = name) (on_demand_services s1)")
      case None
      with run no_service inv1 show ?thesis by (auto intro: create_and_enqueue_packet_inv)
    next
      case (Some e)
      with run no_service inv1 names show ?thesis
        by (auto split: list.splits if_splits elim!: associate_and_notify_invD
            intro!: daemon_inv_launch simp del: daemon_inv_services_update daemon_inv_update)
    qed
  qed
qed


lemma remove_association_invD:
  "remove_association p s = Inr s' \<Longrightarrow> daemon_inv s \<Longrightarrow> daemon_inv s'"
  by (rule remove_association_inv)

lemma clear_packet_queue_invD:
  "clear_packet_queue p s = Inr s' \<Longrightarrow> daemon_inv s \<Longrightarrow> daemon_inv s'"
  by (rule clear_packet_queue_inv)

lemma handle_pkt_data_inv:
  "daemon_inv s \<Longrightarrow> handle_pkt_data cid data plen s = Inr s' \<Longrightarrow> daemon_inv s'"
  unfolding handle_pkt_data_def
  by (auto split: option.splits if_splits prod.splits elim!: create_and_send_msg_invD)

lemma handle_pkt_eos_inv:
  "daemon_inv s \<Longrightarrow> handle_pkt_eos cid s = Inr s' \<Longrightarrow> daemon_inv s'"
  unfolding handle_pkt_eos_def
  by (auto split: option.splits if_splits prod.splits simp: bindE_eq_Inr daemon_inv_modify_channels
      elim!: remove_association_invD create_and_send_msg_invD)

lemma handle_pkt_reset_inv:
  "daemon_inv s \<Longrightarrow> handle_pkt_reset cid s = Inr s' \<Longrightarrow> daemon_inv s'"
  unfolding handle_pkt_reset_def
  by (auto split: option.splits if_splits prod.splits simp: bindE_eq_Inr
      elim!: remove_association_invD create_and_send_msg_invD clear_packet_queue_invD)

lemma handle_received_pkt_inv:
  "daemon_inv s \<Longrightarrow> handle_received_pkt ptype cid data plen s = Inr s' \<Longrightarrow> daemon_inv s'"
  unfolding handle_received_pkt_def
  by (elim bindE_InrE)
     (auto split: if_splits
        intro!: remove_channel_inv
        intro: handle_pkt_connect_inv handle_pkt_data_inv handle_pkt_eos_inv handle_pkt_reset_inv)

declare decode_loop.simps [simp del]

lemma decode_loop_inv:
  "daemon_inv s \<Longrightarrow> decode_loop p len s = Inr s' \<Longrightarrow> daemon_inv s'"
proof (induction p len s rule: decode_loop.induct)
  case (1 p len s)
  show ?case
  proof (cases "p < len")
    case False
    with "1.prems" show ?thesis by (simp add: decode_loop.simps)
  next
    case True
    with "1.prems"(2) have small: "\<not> 256 \<le> p + 2"
      by (subst (asm) decode_loop.simps) (auto split: if_splits)
    with True "1.prems"(2) obtain s1 where
      h: "handle_received_pkt (uint (recv_buf s (p + 1))) (uint (recv_buf s (p + 2)))
            (recv_buf_from (p + 3) s) (uint (recv_buf s p)) s = Inr s1"
      and rest: "decode_loop (p + 3 + unat (recv_buf s p)) len s1 = Inr s'"
      by (subst (asm) decode_loop.simps) (auto simp: bindE_eq_Inr)
    from "1.prems"(1) h have "daemon_inv s1" by (rule handle_received_pkt_inv)
    from "1.IH" [OF True small h this rest] show ?thesis .
  qed
qed

lemma receive_from_a2r_inv:
  "daemon_inv s \<Longrightarrow> receive_from_a2r s = Inr (b, s') \<Longrightarrow> daemon_inv s'"
  unfolding receive_from_a2r_def Let_def
  by (auto split: if_splits simp: bindE_eq_Inr dest!: decode_loop_inv [rotated])


lemma flush_loop_inv:
  assumes "daemon_inv s" and "0 \<le> left" and "int (length buf) + left \<le> 255"
    and "flush_loop left buf s = Inr (buf', s')"
  shows "daemon_inv s'"
proof -
  from assms(1) have sq: "send_queue_ok s" and d: "distinct (map fst (channels s))"
    and b: "\<forall>p \<in> set (map fst (channels s)). p < next_ptr s"
    and n: "distinct (map srv_name (services s))"
    unfolding daemon_inv_def channels_ok_def by blast+
  from flush_loop_spec [OF sq d assms(2,3)] assms(4)
  have ok': "send_queue_ok s'" and d': "distinct (map fst (channels s'))"
    and sub: "set (map fst (channels s')) \<subseteq> set (map fst (channels s))"
    and frame: "s' = s\<lparr>channels := channels s', send_queue := send_queue s'\<rparr>"
    by auto
  have np: "next_ptr s' = next_ptr s" and sv: "services s' = services s"
    by (subst frame, simp)+
  have "channels_ok s'"
    unfolding channels_ok_def
  proof (intro conjI ballI)
    show "distinct (map fst (channels s'))" by (rule d')
  next
    fix p assume "p \<in> set (map fst (channels s'))"
    with sub have "p \<in> set (map fst (channels s))" by (rule subsetD)
    with b have "p < next_ptr s" by (rule bspec)
    then show "p < next_ptr s'" by (simp only: np)
  qed
  with ok' n show ?thesis unfolding daemon_inv_def sv by (intro conjI)
qed

lemma flush_send_queue_inv:
  assumes "daemon_inv s" and "flush_send_queue s = Inr (b, s')"
  shows "daemon_inv s'"
proof -
  have len_b: "0 \<le> r2a_len s" "r2a_len s < 256" by (simp_all add: r2a_len_def and_255)
  from assms(2) obtain buf s1 where
    run: "flush_loop (255 - r2a_len s) [] s = Inr (buf, s1)"
    unfolding flush_send_queue_def Let_def r2a_len_def by (elim bindE_InrE) auto
  from len_b have "daemon_inv s1"
    by (intro flush_loop_inv [OF assms(1) _ _ run]) simp_all
  with assms(2) run show ?thesis
    unfolding flush_send_queue_def Let_def r2a_len_def [symmetric]
    by (auto simp: bindE_eq_Inr spi_write_mem_def split: if_splits)
qed

lemma read_cmem_nibbles_inv [simp]:
  "daemon_inv (snd (read_cmem_nibbles is ba s)) = daemon_inv s"
  by (induction "is" arbitrary: ba s) (simp_all add: split_beta Let_def)

lemma read_base_address_inv [simp]: "daemon_inv (read_base_address s) = daemon_inv s"
proof -
  have a: "daemon_inv (snd (read_cmem_nibbles [0, 1, 2, 3, 4] 0 (s\<lparr>have_base_address := False\<rparr>)))
      = daemon_inv s"
    by (simp only: read_cmem_nibbles_inv daemon_inv_update)
  have b: "daemon_inv (snd (read_cmem_nibbles [0, 1, 2, 3, 4] 0 t)) = daemon_inv t" for t
    by (simp only: read_cmem_nibbles_inv)
  show ?thesis
    unfolding read_base_address_def Let_def split_beta
    by (simp only: a b daemon_inv_update if_distrib [of daemon_inv] if_cancel)
qed

lemma read_channel_status_inv [simp]: "daemon_inv (read_channel_status s) = daemon_inv s"
  by (simp add: read_channel_status_def Let_def)

lemma write_channel_status_inv:
  "daemon_inv s \<Longrightarrow> write_channel_status s = Inr s' \<Longrightarrow> daemon_inv s'"
  unfolding write_channel_status_def
  by (auto simp: bindE_eq_Inr spi_write_mem_def split: if_splits)


lemma remove_association_send_queue:
  "remove_association p s = Inr s' \<Longrightarrow> send_queue s' = send_queue s"
  by (erule remove_association_Inr) simp

lemma reset_channel_association_inv:
  assumes "daemon_inv s" and "reset_channel_association p s = Inr s'"
  shows "daemon_inv s'" and "send_queue s' = send_queue s"
proof -
  from assms(2) consider "s' = s"
    | c sid s1 where "create_and_send_msg c MSG_RESET sid None 0 s = Inr s1"
        "remove_association p s1 = Inr s'"
    unfolding reset_channel_association_def
    by (elim bindE_InrE) (auto split: option.splits simp: bindE_eq_Inr)
  then have "daemon_inv s' \<and> send_queue s' = send_queue s"
  proof cases
    case 1
    with assms(1) show ?thesis by simp
  next
    case (2 c sid s1)
    from assms(1) 2(1) have "daemon_inv s1" by (rule create_and_send_msg_inv)
    from this 2(2) have "daemon_inv s'" by (rule remove_association_inv)
    moreover have "send_queue s' = send_queue s"
      using remove_association_send_queue [OF 2(2)] create_and_send_msg_fields(2) [OF 2(1)]
      by simp
    ultimately show ?thesis by simp
  qed
  then show "daemon_inv s'" and "send_queue s' = send_queue s" by simp_all
qed

lemma daemon_inv_erase_channel:
  assumes "daemon_inv s" and "send_queue s = []"
  shows "daemon_inv (s\<lparr>channels := filter P (channels s)\<rparr>)"
proof -
  from assms(1) have d: "distinct (map fst (channels s))"
    and b: "\<forall>p \<in> set (map fst (channels s)). p < next_ptr s"
    and n: "distinct (map srv_name (services s))"
    unfolding daemon_inv_def channels_ok_def by blast+
  have "channels_ok (s\<lparr>channels := filter P (channels s)\<rparr>)"
    unfolding channels_ok_def using d b by (auto simp: distinct_map_filter)
  moreover have "send_queue_ok (s\<lparr>channels := filter P (channels s)\<rparr>)"
    using assms(2) by (simp add: send_queue_ok_def)
  ultimately show ?thesis using n unfolding daemon_inv_def by simp
qed

lemma close_channels_loop_inv:
  "daemon_inv s \<Longrightarrow> send_queue s = [] \<Longrightarrow> close_channels_loop ps s = Inr s' \<Longrightarrow>
   daemon_inv s'"
proof (induction ps arbitrary: s)
  case Nil
  then show ?case by simp
next
  case (Cons p ps)
  from Cons.prems(3) obtain s1 where
    s1: "reset_channel_association p s = Inr s1"
    and rest: "close_channels_loop ps (s1\<lparr>channels := filter (\<lambda>x. fst x \<noteq> p) (channels s1)\<rparr>) = Inr s'"
    by (auto simp: bindE_eq_Inr)
  from reset_channel_association_inv [OF Cons.prems(1) s1] Cons.prems(2)
  have inv1: "daemon_inv s1" and sq1: "send_queue s1 = []" by simp_all
  have "daemon_inv (s1\<lparr>channels := filter (\<lambda>x. fst x \<noteq> p) (channels s1)\<rparr>)"
    using inv1 sq1 by (rule daemon_inv_erase_channel)
  moreover have "send_queue (s1\<lparr>channels := filter (\<lambda>x. fst x \<noteq> p) (channels s1)\<rparr>) = []"
    using sq1 by simp
  ultimately show ?case using rest by (rule Cons.IH)
qed

lemma close_all_logical_channels_inv:
  assumes "daemon_inv s" and "close_all_logical_channels s = Inr s'"
  shows "daemon_inv s'"
proof -
  from assms(1) have "daemon_inv (s\<lparr>send_queue := []\<rparr>)"
    unfolding daemon_inv_def by (simp add: send_queue_ok_def channels_ok_def)
  moreover have "send_queue (s\<lparr>send_queue := []\<rparr>) = []" by simp
  ultimately show ?thesis
    using assms(2) unfolding close_all_logical_channels_def by (rule close_channels_loop_inv)
qed

lemma handle_a314_irq_unfold:
  "handle_a314_irq s =
     (if fst (spi_ack_irq s) = 0 then Inr (snd (spi_ack_irq s))
      else
        bindE (if fst (spi_ack_irq s) AND R_EVENT_BASE_ADDRESS \<noteq> 0
                  \<or> \<not> have_base_address (snd (spi_ack_irq s))
               then bindE (close_all_logical_channels (snd (spi_ack_irq s)))
                      (\<lambda>s2. Inr (read_base_address s2))
               else Inr (snd (spi_ack_irq s)))
          (\<lambda>s3. if \<not> have_base_address s3 then Inr s3
                else
                  bindE (receive_from_a2r (read_channel_status s3)) (\<lambda>r.
                    bindE (flush_send_queue (snd r)) (\<lambda>f.
                      if fst r \<or> fst f then write_channel_status (snd f) else Inr (snd f)))))"
  unfolding handle_a314_irq_def Let_def case_prod_unfold by simp

lemma receive_from_a2r_invD:
  "receive_from_a2r s = Inr (b, s') \<Longrightarrow> daemon_inv s \<Longrightarrow> daemon_inv s'"
  by (rule receive_from_a2r_inv)

lemma flush_send_queue_invD:
  "flush_send_queue s = Inr (b, s') \<Longrightarrow> daemon_inv s \<Longrightarrow> daemon_inv s'"
  by (rule flush_send_queue_inv)

lemma handle_a314_irq_inv:
  assumes "daemon_inv s" and "handle_a314_irq s = Inr s'"
  shows "daemon_inv s'"
proof -
  define s1 where "s1 = snd (spi_ack_irq s)"
  define events where "events = fst (spi_ack_irq s)"
  have inv1: "daemon_inv s1" using assms(1) by (simp add: s1_def spi_ack_irq_def)
  note eq = assms(2) [unfolded handle_a314_irq_unfold, folded s1_def events_def]
  show ?thesis
  proof (cases "events = 0")
    case True
    with eq have "s' = s1" by simp
    with inv1 show ?thesis by simp
  next
    case False
    with eq obtain s3 where
      s3: "(if events AND R_EVENT_BASE_ADDRESS \<noteq> 0 \<or> \<not> have_base_address s1
            then bindE (close_all_logical_channels s1) (\<lambda>s2. Inr (read_base_address s2))
            else Inr s1) = Inr s3"
      and fin: "(if \<not> have_base_address s3 then Inr s3
                else
                  bindE (receive_from_a2r (read_channel_status s3)) (\<lambda>r.
                    bindE (flush_send_queue (snd r)) (\<lambda>f.
                      if fst r \<or> fst f then write_channel_status (snd f) else Inr (snd f)))) = Inr s'"
      by (simp only: if_False) (erule bindE_InrE)
    have inv3: "daemon_inv s3"
    proof (cases "events AND R_EVENT_BASE_ADDRESS \<noteq> 0 \<or> \<not> have_base_address s1")
      case True
      with s3 obtain s2 where "close_all_logical_channels s1 = Inr s2" "s3 = read_base_address s2"
        by (auto simp: bindE_eq_Inr)
      with inv1 show ?thesis by (simp add: close_all_logical_channels_inv)
    next
      case False
      with s3 inv1 show ?thesis by simp
    qed
    show ?thesis
    proof (cases "have_base_address s3")
      case False
      with fin inv3 show ?thesis by simp
    next
      case True
      with fin obtain r f where
        rc: "receive_from_a2r (read_channel_status s3) = Inr r"
        and fl: "flush_send_queue (snd r) = Inr f"
        and w: "(if fst r \<or> fst f then write_channel_status (snd f) else Inr (snd f)) = Inr s'"
        by (auto simp: bindE_eq_Inr)
      have "daemon_inv (read_channel_status s3)" using inv3 by simp
      with rc have "daemon_inv (snd r)" by (cases r) (auto elim!: receive_from_a2r_invD)
      with fl have "daemon_inv (snd f)" by (cases f) (auto elim!: flush_send_queue_invD)
      with w show ?thesis by (auto intro: write_channel_status_inv split: if_splits)
    qed
  qed
qed


lemma close_and_remove_connection_invD:
  "close_and_remove_connection c s = Inr s' \<Longrightarrow> daemon_inv s \<Longrightarrow> daemon_inv s'"
  by (rule close_and_remove_connection_inv)

lemma handle_received_message_invD:
  "handle_received_message c s = Inr s' \<Longrightarrow> daemon_inv s \<Longrightarrow> daemon_inv s'"
  by (rule handle_received_message_inv)

lemma read_loop_inv:
  "daemon_inv s \<Longrightarrow> read_loop c rs s = Inr (closed, rs', s') \<Longrightarrow> daemon_inv s'"
proof (induction rs arbitrary: s)
  case Nil
  then show ?case by simp
next
  case (Cons r rs)
  from Cons.prems(2) obtain cc where cc: "deref (connections s) c = Inr cc"
    by (auto simp: bindE_eq_Inr)
  show ?case
  proof (cases r)
    case (ReadError e)
    with Cons.prems cc show ?thesis by (auto simp: Let_def split: if_splits)
  next
    case (Read bytes)
    define left where "left = (if payload cc = [] then 9 - bytes_read cc
                   else uint (header_length (header cc)) - bytes_read cc)"
    define cc1 where "cc1 = (store_read bytes cc)\<lparr>bytes_read := bytes_read cc + int (length bytes)\<rparr>"
    define s1 where "s1 = s\<lparr>connections := modify c (\<lambda>_. cc1) (connections s)\<rparr>"
    define X where "X = (if payload cc1 = [] then
                              (if header_length (header cc1) = 0 then handle_received_message c s1
                               else if 2147483648 \<le> uint (header_length (header cc1)) then Inl Exit
                               else Inr (s1\<lparr>connections :=
                                           modify c (\<lambda>cc. cc\<lparr>payload :=
                                               replicate (unat (header_length (header cc))) 0\<rparr>)
                                             (connections s1)\<rparr>))
                            else
                              bindE (handle_received_message c s1) (\<lambda>s2.
                                Inr (s2\<lparr>connections :=
                                        modify c (\<lambda>cc. cc\<lparr>payload := []\<rparr>) (connections s2)\<rparr>)))"
    have eq: "read_loop c (r # rs) s =
        (if bytes = [] then bindE (close_and_remove_connection c s) (\<lambda>s1. Inr (True, rs, s1))
         else if left < int (length bytes) then Inl Stuck
         else if left - int (length bytes) \<noteq> 0 then read_loop c rs s1
         else bindE X (\<lambda>s3. read_loop c rs
                 (s3\<lparr>connections := modify c (\<lambda>cc. cc\<lparr>bytes_read := 0\<rparr>) (connections s3)\<rparr>)))"
      unfolding read_loop.simps Read cc bindE_simps read_result.case Let_def
        left_def [symmetric] cc1_def [symmetric] s1_def [symmetric] X_def [symmetric]
      by (rule refl)
    have inv1: "daemon_inv s1" using Cons.prems(1) by (simp add: s1_def)
    have invX: "daemon_inv s3" if "X = Inr s3" for s3
      using that inv1 unfolding X_def
      by (auto split: if_splits simp: bindE_eq_Inr elim!: handle_received_message_invD)
    note run = Cons.prems(2) [unfolded eq]
    show ?thesis
    proof (cases "bytes = []")
      case True
      with run Cons.prems(1) show ?thesis
        by (auto simp: bindE_eq_Inr elim!: close_and_remove_connection_invD)
    next
      case False
      note nonempty = this
      show ?thesis
      proof (cases "left - int (length bytes) \<noteq> 0")
        case True
        with run nonempty have "read_loop c rs s1 = Inr (closed, rs', s')"
          by (simp split: if_splits)
        with inv1 show ?thesis by (rule Cons.IH)
      next
        case False
        with run nonempty obtain s3 where x: "X = Inr s3"
          and rest: "read_loop c rs
                 (s3\<lparr>connections := modify c (\<lambda>cc. cc\<lparr>bytes_read := 0\<rparr>) (connections s3)\<rparr>)
                 = Inr (closed, rs', s')"
          by (auto simp: bindE_eq_Inr split: if_splits)
        from invX [OF x]
        have "daemon_inv (s3\<lparr>connections := modify c (\<lambda>cc. cc\<lparr>bytes_read := 0\<rparr>) (connections s3)\<rparr>)"
          by simp
        from this rest show ?thesis by (rule Cons.IH)
      qed
    qed
  qed
qed

lemma drain_loop_inv:
  "daemon_inv s \<Longrightarrow> drain_loop c ws s = Inr (ws', s') \<Longrightarrow> daemon_inv s'"
proof (induction ws arbitrary: s)
  case Nil
  then show ?case by (auto simp: bindE_eq_Inr split: if_splits)
next
  case (Cons r rs)
  from Cons.prems(2) obtain cc where cc: "deref (connections s) c = Inr cc"
    by (auto simp: bindE_eq_Inr)
  show ?case
  proof (cases "message_queue cc")
    case Nil
    with Cons.prems cc show ?thesis by simp
  next
    case (Cons mb mq)
    define s0 where "s0 = s\<lparr>sys_write_log :=
                       sys_write_log s @ [(fd cc, drop (nat (mb_pos mb)) (mb_data mb))]\<rparr>"
    have inv0: "daemon_inv s0" using Cons.prems(1) by (simp add: s0_def)
    show ?thesis
    proof (cases r)
      case (WriteError e)
      with Cons.prems(2) cc Cons inv0 show ?thesis
        by (auto simp: Let_def bindE_eq_Inr s0_def [symmetric] split: if_splits
            elim!: close_and_remove_connection_invD)
    next
      case (Written n)
      with Cons.prems(2) cc Cons obtain q where
        "drain_loop c rs (s0\<lparr>connections := modify c (\<lambda>cc. cc\<lparr>message_queue := q\<rparr>) (connections s0)\<rparr>)
           = Inr (ws', s')"
        by (auto simp: Let_def s0_def [symmetric] split: if_splits)
      moreover have "daemon_inv (s0\<lparr>connections := modify c (\<lambda>cc. cc\<lparr>message_queue := q\<rparr>) (connections s0)\<rparr>)"
        using inv0 by simp
      ultimately show ?thesis by (rule Cons.IH [rotated])
    qed
  qed
qed

lemma handle_client_connection_event_inv:
  assumes "daemon_inv s" and "handle_client_connection_event c ev s = Inr s'"
  shows "daemon_inv s'"
proof (cases "EPOLLERR ev")
  case True
  with assms show ?thesis
    by (auto simp: handle_client_connection_event_def elim!: close_and_remove_connection_invD)
next
  case False
  with assms(2) obtain closed s2 where
    rd: "(if EPOLLIN ev then
                 bindE (read_loop c (sys_read s) s) (\<lambda>(closed, rs, s1).
                   Inr (closed, s1\<lparr>sys_read := rs\<rparr>))
               else Inr (False, s)) = Inr (closed, s2)"
    and wr: "(if closed then Inr s2
             else if EPOLLOUT ev then
               bindE (drain_loop c (sys_write s2) s2) (\<lambda>(ws, s3). Inr (s3\<lparr>sys_write := ws\<rparr>))
             else Inr s2) = Inr s'"
    by (auto simp: handle_client_connection_event_def bindE_eq_Inr)
  have inv2: "daemon_inv s2"
  proof (cases "EPOLLIN ev")
    case True
    with rd obtain rs s1 where "read_loop c (sys_read s) s = Inr (closed, rs, s1)"
      "s2 = s1\<lparr>sys_read := rs\<rparr>"
      by (auto simp: bindE_eq_Inr)
    with assms(1) show ?thesis by (simp add: read_loop_inv)
  next
    case False
    with rd assms(1) show ?thesis by simp
  qed
  show ?thesis
  proof (cases "closed \<or> \<not> EPOLLOUT ev")
    case True
    with wr inv2 show ?thesis by (auto split: if_splits)
  next
    case False
    with wr obtain ws s3 where "drain_loop c (sys_write s2) s2 = Inr (ws, s3)"
      "s' = s3\<lparr>sys_write := ws\<rparr>"
      by (auto simp: bindE_eq_Inr)
    with inv2 show ?thesis by (simp add: drain_loop_inv)
  qed
qed

lemma handle_server_socket_ready_inv:
  "daemon_inv s \<Longrightarrow> handle_server_socket_ready f a b e s = Inr s' \<Longrightarrow> daemon_inv s'"
  unfolding handle_server_socket_ready_def
  by (auto split: if_splits intro: daemon_inv_next_ptr)

lemma close_connections_loop_inv:
  "daemon_inv s \<Longrightarrow> close_connections_loop cs s = Inr s' \<Longrightarrow> daemon_inv s'"
  by (induction cs arbitrary: s) (auto simp: bindE_eq_Inr dest: close_and_remove_connection_inv)

lemma flush_and_write_status_inv:
  "daemon_inv s \<Longrightarrow> flush_and_write_status s = Inr s' \<Longrightarrow> daemon_inv s'"
  unfolding flush_and_write_status_def
  by (auto simp: bindE_eq_Inr split: if_splits
      dest: flush_send_queue_inv write_channel_status_inv)

lemma main_loop_turn_inv:
  assumes "daemon_inv (globals m)" and "main_loop_turn w m = Inr m'"
  shows "daemon_inv (globals m')"
proof (cases w)
  case Interrupted
  with assms show ?thesis
    by (auto simp: main_loop_turn_def bindE_eq_Inr split: if_splits
        dest!: close_connections_loop_inv [rotated] flush_and_write_status_inv [rotated])
next
  case WaitFailed
  with assms show ?thesis by (simp add: main_loop_turn_def)
next
  case Timeout
  with assms show ?thesis by (auto simp: main_loop_turn_def split: if_splits)
next
  case (GpioReady ok)
  with assms show ?thesis
    by (auto simp: main_loop_turn_def bindE_eq_Inr split: if_splits dest: handle_a314_irq_inv)
next
  case (ServerReady f a b e)
  with assms show ?thesis
    by (auto simp: main_loop_turn_def bindE_eq_Inr dest: handle_server_socket_ready_inv)
next
  case (ClientReady f ev)
  with assms show ?thesis
    by (auto simp: main_loop_turn_def bindE_eq_Inr split: option.splits
        dest!: handle_client_connection_event_inv [rotated] flush_and_write_status_inv [rotated])
qed

lemma initial_daemon_inv: "daemon_inv (environment a b c d (initial_daemon cfg))"
  by (simp add: daemon_inv_def send_queue_ok_def channels_ok_def environment_def initial_daemon_def)

lemma reachable_inv: "reachable m \<Longrightarrow> daemon_inv (globals m)"
proof (induction rule: reachable.induct)
  case (start a b c d cfg s)
  then show ?case using handle_a314_irq_inv [OF initial_daemon_inv] by simp
next
  case (turn m w m')
  then show ?case by (auto intro: main_loop_turn_inv)
next
  case (answers m a b c d)
  then show ?case by (simp add: environment_def)
qed

lemma flush_send_queue_send_queue_ok:
  assumes "send_queue_ok s" and "distinct (map fst (channels s))"
    and "flush_send_queue s = Inr (b, s')"
  shows "send_queue_ok s'"
proof -
  have len_b: "0 \<le> 255 - r2a_len s" "int (length ([]::uint8_t list)) + (255 - r2a_len s) \<le> 255"
    by (simp_all add: r2a_len_def and_255)
  from flush_loop_spec [OF assms(1,2) len_b] obtain buf s1 where
    run: "flush_loop (255 - r2a_len s) [] s = Inr (buf, s1)" and ok1: "send_queue_ok s1"
    by auto
  from assms(3) run have "channels s' = channels s1 \<and> send_queue s' = send_queue s1"
    unfolding flush_send_queue_def Let_def r2a_len_def [symmetric]
    by (auto simp: bindE_eq_Inr spi_write_mem_def split: if_splits)
  with ok1 show ?thesis by (simp add: send_queue_ok_def)
qed

lemma flush_send_queue_returns:
  assumes "send_queue_ok s" and "distinct (map fst (channels s))"
  shows "\<exists>b s'. flush_send_queue s = Inr (b, s') \<and> send_queue_ok s'"
proof -
  from flush_send_queue_spec [OF assms] obtain b s' where "flush_send_queue s = Inr (b, s')"
    by blast
  with flush_send_queue_send_queue_ok [OF assms this] show ?thesis by blast
qed

lemma example_idle_reachable: "reachable example_idle"
proof -
  have "handle_a314_irq (environment [] [] [] [] (initial_daemon []))
      = Inr ((initial_daemon [])\<lparr>spi_log := [\<lparr>tr_tx = [0x2c, 0], tr_len = 2\<rparr>]\<rparr>)"
    by (simp add: handle_a314_irq_unfold spi_ack_irq_def spi_read_cmem_def transfer_def
        environment_def initial_daemon_def)
  then show ?thesis unfolding example_idle_def by (rule reachable.start)
qed

lemma unat_ucast_8: "unat (ucast (w :: uint32_t) :: uint8_t) = unat w mod 256"
  by (simp add: unsigned_ucast_eq take_bit_eq_mod)

lemma write_loop_first:
  "write_loop f mb rs0 = Inr (out, rs, log) \<Longrightarrow>
   \<exists>log'. log = (f, drop (nat (mb_pos mb)) (mb_data mb)) # log'"
  by (cases rs0) (auto simp: Let_def bindE_eq_Inr split: write_result.splits if_splits)

lemma create_and_send_msg_offered:
  assumes "create_and_send_msg c t sid d l s = Inr s'" and "copy_bytes d (nat l) = Inr bytes"
  shows "offered c (encode_header l sid t @ bytes) s s'"
proof -
  from assms(1) obtain cc bytes' f rs log where
    cc: "map_of (connections s) c = Some cc" and b: "copy_bytes d (nat l) = Inr bytes'"
    and s': "s' = s\<lparr>connections := modify c f (connections s), sys_write := rs,
            sys_write_log := sys_write_log s @ log\<rparr>"
    and q: "message_queue cc \<noteq> [] \<Longrightarrow> rs = sys_write s \<and> log = [] \<and>
       f = (\<lambda>x. x\<lparr>message_queue := message_queue x @
                [\<lparr>mb_pos = 0, mb_data = encode_header l sid t @ bytes'\<rparr>]\<rparr>)"
    and w: "message_queue cc = [] \<Longrightarrow> \<exists>out.
       write_loop (fd cc) \<lparr>mb_pos = 0, mb_data = encode_header l sid t @ bytes'\<rparr> (sys_write s)
         = Inr (out, rs, log) \<and>
       f = (case out of Queued mb' \<Rightarrow> (\<lambda>x. x\<lparr>message_queue := message_queue x @ [mb']\<rparr>)
            | _ \<Rightarrow> (\<lambda>x. x))"
    by (elim create_and_send_msg_Inr) (rule that; assumption)
  from b assms(2) have bb: "bytes' = bytes" by simp
  show ?thesis
  proof (cases "message_queue cc = []")
    case False
    with q cc show ?thesis by (simp add: offered_def s' map_of_modify bb)
  next
    case True
    from w [OF True] obtain out where
      "write_loop (fd cc) \<lparr>mb_pos = 0, mb_data = encode_header l sid t @ bytes'\<rparr> (sys_write s)
         = Inr (out, rs, log)" by blast
    from write_loop_first [OF this] obtain log' where
      "log = (fd cc, encode_header l sid t @ bytes') # log'" by auto
    with True cc show ?thesis by (simp add: offered_def s' bb)
  qed
qed

lemma offered_cong:
  "connections s0 = connections s \<Longrightarrow> sys_write_log s0 = sys_write_log s \<Longrightarrow>
   offered c msg s0 s' = offered c msg s s'"
  by (simp add: offered_def split: option.splits)

lemma find_Some_name:
  "find (\<lambda>srv. srv_name srv = n) xs = Some srv \<Longrightarrow> n \<in> set (map srv_name xs)"
  by (induction xs) (auto split: if_splits)

lemma handle_msg_register_req_spec:
  assumes "handle_msg_register_req c s = Inr s'" and "map_of (connections s) c = Some cc"
  shows "if payload cc \<in> set (map srv_name (services s))
       then services s' = services s \<and>
            offered c (encode_header 1 0 MSG_REGISTER_RES @ [MSG_FAIL]) s s'
       else services s' = services s @ [\<lparr>srv_name = payload cc, srv_cc = c\<rparr>] \<and>
            offered c (encode_header 1 0 MSG_REGISTER_RES @ [MSG_SUCCESS]) s s'"
proof (cases "find (\<lambda>srv. srv_name srv = payload cc) (services s)")
  case None
  then have notin: "payload cc \<notin> set (map srv_name (services s))" by (rule find_None_name)
  define s0 where "s0 = s\<lparr>services := services s @ [\<lparr>srv_name = payload cc, srv_cc = c\<rparr>]\<rparr>"
  from assms None have run: "create_and_send_msg c MSG_REGISTER_RES 0 (Some [MSG_SUCCESS]) 1 s0 = Inr s'"
    by (simp add: handle_msg_register_req_def deref_def s0_def)
  have "offered c (encode_header 1 0 MSG_REGISTER_RES @ [MSG_SUCCESS]) s0 s'"
    by (rule create_and_send_msg_offered [OF run]) (simp add: copy_bytes_def)
  moreover have "offered c (encode_header 1 0 MSG_REGISTER_RES @ [MSG_SUCCESS]) s0 s'
      = offered c (encode_header 1 0 MSG_REGISTER_RES @ [MSG_SUCCESS]) s s'"
    by (rule offered_cong) (simp_all add: s0_def)
  ultimately have "offered c (encode_header 1 0 MSG_REGISTER_RES @ [MSG_SUCCESS]) s s'"
    by simp
  moreover have "services s' = services s0"
    by (subst create_and_send_msg_frame [OF run]) simp
  ultimately show ?thesis using notin by (simp add: s0_def)
next
  case (Some srv)
  then have isin: "payload cc \<in> set (map srv_name (services s))"
    by (rule find_Some_name)
  from assms Some have run: "create_and_send_msg c MSG_REGISTER_RES 0 (Some [MSG_FAIL]) 1 s = Inr s'"
    by (simp add: handle_msg_register_req_def deref_def)
  have "offered c (encode_header 1 0 MSG_REGISTER_RES @ [MSG_FAIL]) s s'"
    by (rule create_and_send_msg_offered [OF run]) (simp add: copy_bytes_def)
  moreover have "services s' = services s"
    by (subst create_and_send_msg_frame [OF run]) simp
  ultimately show ?thesis using isin by simp
qed

lemma associate_and_notify_services:
  "associate_and_notify p c data plen s = Inr s' \<Longrightarrow> services s' = services s"
  unfolding associate_and_notify_def
  by (elim bindE_InrE) (auto split: if_splits dest: create_and_send_msg_fields(3))

lemma handle_pkt_connect_services:
  assumes "handle_pkt_connect cid data plen s = Inr s'"
  shows "services s' = services s \<or>
         (take (nat plen) data \<notin> set (map srv_name (services s)) \<and>
          find (\<lambda>e. service_name e = take (nat plen) data) (on_demand_services s) \<noteq> None \<and>
          services s' =
            services s @ [\<lparr>srv_name = take (nat plen) data, srv_cc = Suc (next_ptr s)\<rparr>])"
proof -
  define ch where "ch = \<lparr>channel_id = cid, association = None, stream_id = 0,
       got_eos_from_ami = False, got_eos_from_client = False, packet_queue = []\<rparr>"
  define s1 where "s1 = s\<lparr>channels := channels s @ [(next_ptr s, ch)], next_ptr := Suc (next_ptr s)\<rparr>"
  define name where "name = take (nat plen) data"
  have p: "next_ptr s1 = Suc (next_ptr s)" by (simp add: s1_def)
  have f1: "services s1 = services s" "on_demand_services s1 = on_demand_services s"
    by (simp_all add: s1_def)
  from assms have run: "(case find (\<lambda>srv. srv_name srv = name) (services s1) of
             Some srv \<Rightarrow> associate_and_notify (next_ptr s) (srv_cc srv) data plen s1
           | None \<Rightarrow>
               (case find (\<lambda>e. service_name e = name) (on_demand_services s1) of
                  Some on_demand \<Rightarrow>
                    (case sys_launch s1 of
                       [] \<Rightarrow> Inl Stuck
                     | r # rs \<Rightarrow>
                         if \<not> socketpair_ok r \<or> \<not> fork_ok r \<or> \<not> fcntl_fd_ok r
                            \<or> \<not> fcntl_fl_ok r \<or> \<not> epoll_ctl_ok r
                         then Inl Exit
                         else
                           associate_and_notify (next_ptr s) (next_ptr s1) data plen
                             (s1\<lparr>sys_launch := rs,
                                 connections :=
                                   connections s1 @ [(next_ptr s1, new_connection (launch_fd r))],
                                 next_ptr := Suc (next_ptr s1),
                                 services :=
                                   services s1 @ [\<lparr>srv_name = name, srv_cc = next_ptr s1\<rparr>]\<rparr>))
                | None \<Rightarrow>
                    create_and_enqueue_packet (next_ptr s) PKT_CONNECT_RESPONSE
                      (Some [CONNECT_UNKNOWN_SERVICE]) 1 s1)) = Inr s'"
    unfolding handle_pkt_connect_def Let_def s1_def [symmetric] ch_def [symmetric]
      name_def [symmetric] p
    by (simp split: if_splits)
  show ?thesis
  proof (cases "find (\<lambda>srv. srv_name srv = name) (services s1)")
    case (Some srv)
    with run have "services s' = services s1" by (auto dest: associate_and_notify_services)
    then show ?thesis by (simp add: f1)
  next
    case None
    then have notin: "name \<notin> set (map srv_name (services s))"
      unfolding f1 by (rule find_None_name)
    show ?thesis
    proof (cases "find (\<lambda>e. service_name e = name) (on_demand_services s1)")
      case nod: None
      with run None have "services s' = services s1"
        by (auto dest: create_and_enqueue_packet_fields(2))
      then show ?thesis by (simp add: f1)
    next
      case (Some e)
      with run None have "services s' = services s1 @ [\<lparr>srv_name = name, srv_cc = next_ptr s1\<rparr>]"
        by (auto split: list.splits if_splits dest!: associate_and_notify_services)
      with notin Some show ?thesis unfolding f1 p name_def by simp
    qed
  qed
qed

lemma example_registration:
  "\<exists>m. reachable m \<and> services (globals m) = [\<lparr>srv_name = [0x61, 0x62], srv_cc = 0\<rparr>] \<and>
       sys_write_log (globals m) = [(5, [1, 0, 0, 0, 0, 0, 0, 0, 2, 1])]"
proof -
  define m1 where "m1 = example_idle\<lparr>globals := (globals example_idle)
      \<lparr>connections := [(0, new_connection 5)], next_ptr := 1\<rparr>\<rparr>"
  have t1: "main_loop_turn (ServerReady 5 True True True) example_idle = Inr m1"
    by (simp add: main_loop_turn_def handle_server_socket_ready_def m1_def example_idle_def
        initial_daemon_def)
  have r1: "reachable m1"
    by (rule reachable.turn [OF example_idle_reachable _ t1]) (simp add: example_idle_def)
  define m1' where "m1' = m1\<lparr>globals := environment [] [Written 10]
      [Read [2, 0, 0, 0, 0, 0, 0, 0, 1], Read [0x61, 0x62], ReadError EAGAIN] [] (globals m1)\<rparr>"
  have r1': "reachable m1'" unfolding m1'_def using r1 by (rule reachable.answers)
  have nd: "\<not> is_done m1'" by (simp add: m1'_def m1_def example_idle_def)
  have "\<exists>m2. main_loop_turn (ClientReady 5 \<lparr>EPOLLERR = False, EPOLLIN = True, EPOLLOUT = False\<rparr>) m1'
          = Inr m2 \<and> services (globals m2) = [\<lparr>srv_name = [0x61, 0x62], srv_cc = 0\<rparr>] \<and>
       sys_write_log (globals m2) = [(5, [1, 0, 0, 0, 0, 0, 0, 0, 2, 1])]"
    by (simp add: main_loop_turn_def handle_client_connection_event_def deref_def
        store_read_def header_length_def decode_u32_def handle_received_message_def
        header_type_def handle_msg_register_req_def create_and_send_msg_def
        encode_header_def encode_u32_def copy_bytes_def modify_def flush_and_write_status_def
        flush_send_queue_def flush_loop.simps Let_def environment_def new_connection_def
        m1'_def m1_def example_idle_def initial_daemon_def)
  then obtain m2 where t2: "main_loop_turn (ClientReady 5 \<lparr>EPOLLERR = False, EPOLLIN = True, EPOLLOUT = False\<rparr>) m1'
          = Inr m2" and sv: "services (globals m2) = [\<lparr>srv_name = [0x61, 0x62], srv_cc = 0\<rparr>]"
       "sys_write_log (globals m2) = [(5, [1, 0, 0, 0, 0, 0, 0, 0, 2, 1])]"
    by blast
  from reachable.turn [OF r1' nd t2] sv show ?thesis by blast
qed






lemma reset_step:
  assumes s1: "clear_packet_queue p s = Inr s1"
    and s2: "create_and_enqueue_packet p PKT_RESET None 0 s1 = Inr s2"
    and s3: "s3 = s2\<lparr>channels := modify p (\<lambda>ch. ch\<lparr>association := None, stream_id := 0\<rparr>) (channels s2),
            connections := modify c f (connections s2)\<rparr>"
  shows "channel_reset s3 p"
    and "q \<noteq> p \<Longrightarrow> map_of (channels s3) q = map_of (channels s) q"
    and "q \<noteq> p \<Longrightarrow> q \<in> set (send_queue s3) \<longleftrightarrow> q \<in> set (send_queue s)"
    and "services s3 = services s" and "sys_close_log s3 = sys_close_log s"
    and "connections s3 = modify c f (connections s)"
proof -
  from s1 have "\<exists>ch1. map_of (channels s1) p = Some ch1 \<and> packet_queue ch1 = []"
    by (elim clear_packet_queue_Inr) (auto simp: map_of_modify)
  then obtain ch1 where ch1: "map_of (channels s1) p = Some ch1" and e1: "packet_queue ch1 = []"
    by blast
  from s1 have a2: "map_of (channels s1) q = map_of (channels s) q" if "q \<noteq> p" for q
    using that by (elim clear_packet_queue_Inr) (auto simp: map_of_modify)
  from s1 have a3: "q \<in> set (send_queue s1) \<longleftrightarrow> q \<in> set (send_queue s)" if "q \<noteq> p" for q
    using that by (elim clear_packet_queue_Inr) auto
  from s1 have a4: "services s1 = services s" "sys_close_log s1 = sys_close_log s"
    "connections s1 = connections s"
    by (elim clear_packet_queue_Inr; simp)+
  have cp: "copy_bytes None (unat (0::uint8_t)) = Inr []" by (simp add: copy_bytes_def)
  from s2 ch1 e1 cp have s2': "s2 = s1\<lparr>send_queue := send_queue s1 @ [p],
            channels := modify p (\<lambda>x. x\<lparr>packet_queue :=
               packet_queue x @ [\<lparr>pb_type = PKT_RESET, pb_data = []\<rparr>]\<rparr>) (channels s1)\<rparr>"
    by (elim create_and_enqueue_packet_Inr) simp
  show "channel_reset s3 p"
    using ch1 e1 by (simp add: channel_reset_def s3 s2' map_of_modify)
  show "map_of (channels s3) q = map_of (channels s) q" if "q \<noteq> p"
    using that a2 by (simp add: s3 s2' map_of_modify)
  show "q \<in> set (send_queue s3) \<longleftrightarrow> q \<in> set (send_queue s)" if "q \<noteq> p"
    using that a3 by (simp add: s3 s2')
  show "services s3 = services s" "sys_close_log s3 = sys_close_log s"
    "connections s3 = modify c f (connections s)"
    using a4 by (simp_all add: s3 s2')
qed

lemma channel_reset_cong:
  "map_of (channels s') p = map_of (channels s) p \<Longrightarrow>
   (p \<in> set (send_queue s') \<longleftrightarrow> p \<in> set (send_queue s)) \<Longrightarrow>
   channel_reset s' p = channel_reset s p"
  by (simp add: channel_reset_def split: option.splits)

lemma filter_modify_other:
  "filter (\<lambda>x. fst x \<noteq> c) (modify c f xs) = filter (\<lambda>x. fst x \<noteq> c) xs"
  by (induction xs) (auto simp: modify_def split: if_splits)

lemma close_associations_loop_spec:
  "close_associations_loop c ps s = Inr s' \<Longrightarrow>
   list_all (channel_reset s') ps \<and>
   (\<forall>q. q \<notin> set ps \<longrightarrow>
      map_of (channels s') q = map_of (channels s) q \<and>
      (q \<in> set (send_queue s') \<longleftrightarrow> q \<in> set (send_queue s))) \<and>
   services s' = services s \<and> sys_close_log s' = sys_close_log s \<and>
   filter (\<lambda>x. fst x \<noteq> c) (connections s') = filter (\<lambda>x. fst x \<noteq> c) (connections s)"
proof (induction ps arbitrary: s)
  case Nil
  then show ?case by simp
next
  case (Cons p ps)
  from Cons.prems obtain s1 s2 where
    s1: "clear_packet_queue p s = Inr s1"
    and s2: "create_and_enqueue_packet p PKT_RESET None 0 s1 = Inr s2"
    and rest: "close_associations_loop c ps
        (s2\<lparr>channels := modify p (\<lambda>ch. ch\<lparr>association := None, stream_id := 0\<rparr>) (channels s2),
            connections := modify c (\<lambda>cc. cc\<lparr>associations := ps\<rparr>) (connections s2)\<rparr>) = Inr s'"
    by (auto simp: bindE_eq_Inr)
  define s3 where "s3 = s2\<lparr>channels := modify p (\<lambda>ch. ch\<lparr>association := None, stream_id := 0\<rparr>) (channels s2),
            connections := modify c (\<lambda>cc. cc\<lparr>associations := ps\<rparr>) (connections s2)\<rparr>"
  note step = reset_step [OF s1 s2 s3_def]
  from rest have rest': "close_associations_loop c ps s3 = Inr s'" by (simp add: s3_def)
  from Cons.IH [OF rest'] have ih1: "list_all (channel_reset s') ps"
    and ih2: "\<And>q. q \<notin> set ps \<Longrightarrow> map_of (channels s') q = map_of (channels s3) q"
    and ih3: "\<And>q. q \<notin> set ps \<Longrightarrow> q \<in> set (send_queue s') \<longleftrightarrow> q \<in> set (send_queue s3)"
    and ih4: "services s' = services s3" "sys_close_log s' = sys_close_log s3"
    and ih6: "filter (\<lambda>x. fst x \<noteq> c) (connections s') = filter (\<lambda>x. fst x \<noteq> c) (connections s3)"
    by simp_all
  have "channel_reset s' p"
  proof (cases "p \<in> set ps")
    case True
    with ih1 show ?thesis by (simp add: list_all_iff)
  next
    case False
    have "channel_reset s' p = channel_reset s3 p"
      by (rule channel_reset_cong) (rule ih2 [OF False], rule ih3 [OF False])
    with step(1) show ?thesis by simp
  qed
  with ih1 have r1: "list_all (channel_reset s') (p # ps)" by simp
  have r2: "map_of (channels s') q = map_of (channels s) q \<and>
      (q \<in> set (send_queue s') \<longleftrightarrow> q \<in> set (send_queue s))" if "q \<notin> set (p # ps)" for q
    using that ih2 [of q] ih3 [of q] step(2) [of q] step(3) [of q] by simp
  have r4: "services s' = services s" "sys_close_log s' = sys_close_log s"
    using ih4 step(4,5) by simp_all
  have r6: "filter (\<lambda>x. fst x \<noteq> c) (connections s') = filter (\<lambda>x. fst x \<noteq> c) (connections s)"
    using ih6 step(6) by (simp add: filter_modify_other)
  from r1 r2 r4 r6 show ?case by blast
qed

lemma close_and_remove_connection_spec:
  assumes "close_and_remove_connection c s = Inr s'" and "map_of (connections s) c = Some cc"
  shows "closed_and_removed c cc s s'"
proof -
  define s0 where "s0 = s\<lparr>sys_close_log := sys_close_log s @ [fd cc],
                   services := filter (\<lambda>srv. srv_cc srv \<noteq> c) (services s)\<rparr>"
  from assms obtain s1 where loop: "close_associations_loop c (associations cc) s0 = Inr s1"
    and s': "s' = s1\<lparr>connections := filter (\<lambda>x. fst x \<noteq> c) (connections s1)\<rparr>"
    by (auto simp: close_and_remove_connection_def deref_def bindE_eq_Inr s0_def)
  from close_associations_loop_spec [OF loop]
  have a: "list_all (channel_reset s1) (associations cc)"
    and b: "services s1 = services s0" "sys_close_log s1 = sys_close_log s0"
    and c: "filter (\<lambda>x. fst x \<noteq> c) (connections s1) = filter (\<lambda>x. fst x \<noteq> c) (connections s0)"
    by simp_all
  have "channel_reset s' = channel_reset s1"
    by (rule ext, rule channel_reset_cong) (simp_all add: s')
  with a have "list_all (channel_reset s') (associations cc)" by simp
  then show ?thesis
    using b c unfolding closed_and_removed_def
    by (simp add: s' s0_def)
qed

lemma write_loop_error:
  assumes "int (sum_list ns) < int (length (mb_data mb)) - mb_pos mb"
  shows "\<exists>log. write_loop f mb (map Written ns @ WriteError e # rs) =
     (if e = EAGAIN \<or> e = EWOULDBLOCK
      then Inr (Queued (mb\<lparr>mb_pos := mb_pos mb + int (sum_list ns)\<rparr>), rs, log)
      else if e = ECONNRESET then Inr (Dropped, rs, log)
      else Inl Exit)"
  using assms
proof (induction ns arbitrary: mb)
  case Nil
  then show ?case by (simp add: Let_def)
next
  case (Cons n ns)
  let ?mb = "mb\<lparr>mb_pos := mb_pos mb + int n\<rparr>"
  from Cons.prems have "int (sum_list ns) < int (length (mb_data ?mb)) - mb_pos ?mb" by simp
  from Cons.IH [OF this] obtain log where
    ih: "write_loop f ?mb (map Written ns @ WriteError e # rs) =
     (if e = EAGAIN \<or> e = EWOULDBLOCK
      then Inr (Queued (?mb\<lparr>mb_pos := mb_pos ?mb + int (sum_list ns)\<rparr>), rs, log)
      else if e = ECONNRESET then Inr (Dropped, rs, log)
      else Inl Exit)" by blast
  have n: "\<not> int (length (mb_data mb)) - mb_pos mb < int n"
    "int n \<noteq> int (length (mb_data mb)) - mb_pos mb"
    using Cons.prems by simp_all
  show ?case
    by (rule exI [of _ "(f, drop (nat (mb_pos mb)) (mb_data mb)) # log"])
       (simp add: Let_def n ih add.assoc)
qed

lemma create_and_send_msg_error:
  assumes cc: "map_of (connections s) c = Some cc" and q: "message_queue cc = []"
    and l: "0 \<le> l" and b: "copy_bytes d (nat l) = Inr bytes"
    and n: "int (sum_list ns) < 9 + l"
    and w: "sys_write s = map Written ns @ WriteError e # rs"
  shows "e = ECONNRESET \<Longrightarrow>
           \<exists>log. create_and_send_msg c t sid d l s =
                   Inr (s\<lparr>sys_write := rs, sys_write_log := sys_write_log s @ log\<rparr>)"
    and "e \<noteq> EAGAIN \<Longrightarrow> e \<noteq> EWOULDBLOCK \<Longrightarrow> e \<noteq> ECONNRESET \<Longrightarrow>
           create_and_send_msg c t sid d l s = Inl Exit"
proof -
  let ?mb = "\<lparr>mb_pos = 0, mb_data = encode_header l sid t @ bytes\<rparr>"
  have len: "length bytes = nat l"
    using b by (auto simp: copy_bytes_def split: option.splits if_splits)
  have "int (sum_list ns) < int (length (mb_data ?mb)) - mb_pos ?mb"
    using n l len by (simp add: encode_header_def encode_u32_def)
  from write_loop_error [OF this, of "fd cc" e rs] obtain log where
    wl: "write_loop (fd cc) ?mb (map Written ns @ WriteError e # rs) =
     (if e = EAGAIN \<or> e = EWOULDBLOCK
      then Inr (Queued (?mb\<lparr>mb_pos := mb_pos ?mb + int (sum_list ns)\<rparr>), rs, log)
      else if e = ECONNRESET then Inr (Dropped, rs, log)
      else Inl Exit)" by blast
  show "\<exists>log. create_and_send_msg c t sid d l s =
                   Inr (s\<lparr>sys_write := rs, sys_write_log := sys_write_log s @ log\<rparr>)"
    if "e = ECONNRESET"
    using that cc q l b w wl
    by (intro exI [of _ log]) (simp add: create_and_send_msg_def deref_def Let_def)
  show "create_and_send_msg c t sid d l s = Inl Exit"
    if "e \<noteq> EAGAIN" "e \<noteq> EWOULDBLOCK" "e \<noteq> ECONNRESET"
    using that cc q l b w wl
    by (simp add: create_and_send_msg_def deref_def Let_def)
qed

lemma closed_and_removed_cong:
  assumes "fd cc' = fd cc" and "associations cc' = associations cc"
    and "filter (\<lambda>x. fst x \<noteq> c) (connections s1) = filter (\<lambda>x. fst x \<noteq> c) (connections s)"
    and "sys_close_log s1 = sys_close_log s" and "services s1 = services s"
  shows "closed_and_removed c cc' s1 s' = closed_and_removed c cc s s'"
  using assms by (simp add: closed_and_removed_def)

lemma channel_ready_cong:
  "map_of (channels s') p = map_of (channels s) p \<Longrightarrow>
   (p \<in> set (send_queue s') \<longleftrightarrow> p \<in> set (send_queue s)) \<Longrightarrow>
   channel_ready s' p = channel_ready s p"
  by (simp add: channel_ready_def split: option.splits)

lemma channel_reset_ready: "channel_reset s p \<Longrightarrow> channel_ready s p"
  by (simp add: channel_reset_def channel_ready_def split: option.splits)

lemma close_associations_loop_returns:
  "list_all (channel_ready s) ps \<Longrightarrow> \<exists>s'. close_associations_loop c ps s = Inr s'"
proof (induction ps arbitrary: s)
  case Nil
  then show ?case by simp
next
  case (Cons p ps)
  from Cons.prems obtain ch where ch: "map_of (channels s) p = Some ch"
    and rdy: "packet_queue ch = [] \<or> p \<in> set (send_queue s)"
    by (auto simp: channel_ready_def split: option.splits)
  from ch rdy obtain s1 where s1: "clear_packet_queue p s = Inr s1"
    by (cases "packet_queue ch = []")
       (auto simp: clear_packet_queue_def deref_def erase_find_def)
  from s1 have "map_of (channels s1) p \<noteq> None"
    by (elim clear_packet_queue_Inr) (auto simp: map_of_modify)
  then obtain s2 where s2: "create_and_enqueue_packet p PKT_RESET None 0 s1 = Inr s2"
    by (auto simp: create_and_enqueue_packet_def deref_def copy_bytes_def)
  define s3 where "s3 = s2\<lparr>channels := modify p (\<lambda>ch. ch\<lparr>association := None, stream_id := 0\<rparr>) (channels s2),
            connections := modify c (\<lambda>cc. cc\<lparr>associations := ps\<rparr>) (connections s2)\<rparr>"
  note step = reset_step [OF s1 s2 s3_def]
  have "channel_ready s3 q" if "q \<in> set ps" for q
  proof (cases "q = p")
    case True
    with step(1) show ?thesis by (simp add: channel_reset_ready)
  next
    case False
    have "channel_ready s3 q = channel_ready s q"
      by (rule channel_ready_cong) (rule step(2) [OF False], rule step(3) [OF False])
    with that Cons.prems show ?thesis by (simp add: list_all_iff)
  qed
  then have "list_all (channel_ready s3) ps" by (simp add: list_all_iff)
  from Cons.IH [OF this] obtain s' where "close_associations_loop c ps s3 = Inr s'" by blast
  with s1 s2 show ?case by (simp add: s3_def)
qed

lemma close_and_remove_connection_returns:
  assumes "map_of (connections s) c = Some cc" and "list_all (channel_ready s) (associations cc)"
  shows "\<exists>s'. close_and_remove_connection c s = Inr s'"
proof -
  define s0 where "s0 = s\<lparr>sys_close_log := sys_close_log s @ [fd cc],
                   services := filter (\<lambda>srv. srv_cc srv \<noteq> c) (services s)\<rparr>"
  have "channel_ready s0 = channel_ready s"
    by (rule ext, rule channel_ready_cong) (simp_all add: s0_def)
  with assms(2) have "list_all (channel_ready s0) (associations cc)" by simp
  from close_associations_loop_returns [OF this, of c] obtain s1 where
    "close_associations_loop c (associations cc) s0 = Inr s1" by blast
  with assms(1) show ?thesis
    by (simp add: close_and_remove_connection_def deref_def s0_def)
qed

text \<open>
  The state of the loop under \<^verbatim>\<open>EPOLLOUT\<close> at the write that fails, after the writes that
  took \<open>ns\<close> bytes: it differs from the state at the start in the message queue of the client
  and in the log of the writes.
\<close>

lemma drain_loop_error:
  assumes "map_of (connections s) c = Some cc"
    and "after_writes ns (message_queue cc) = Some (mb # mq)"
  shows "\<exists>s0 cc0.
           drain_loop c (map Written ns @ WriteError e # rs) s =
             (if e = EAGAIN \<or> e = EWOULDBLOCK then Inr (rs, s0)
              else if e = ECONNRESET
              then bindE (close_and_remove_connection c s0) (\<lambda>s1. Inr (rs, s1))
              else Inl Exit) \<and>
           map_of (connections s0) c = Some cc0 \<and>
           fd cc0 = fd cc \<and> associations cc0 = associations cc \<and>
           message_queue cc0 = mb # mq \<and>
           filter (\<lambda>x. fst x \<noteq> c) (connections s0) = filter (\<lambda>x. fst x \<noteq> c) (connections s) \<and>
           channels s0 = channels s \<and> send_queue s0 = send_queue s \<and>
           sys_close_log s0 = sys_close_log s \<and> services s0 = services s"
  using assms
proof (induction ns arbitrary: s cc)
  case Nil
  then have q: "message_queue cc = mb # mq" by simp
  define s0 where "s0 = s\<lparr>sys_write_log :=
                       sys_write_log s @ [(fd cc, drop (nat (mb_pos mb)) (mb_data mb))]\<rparr>"
  have run: "drain_loop c (WriteError e # rs) s =
      (if e = EAGAIN \<or> e = EWOULDBLOCK then Inr (rs, s0)
       else if e = ECONNRESET then bindE (close_and_remove_connection c s0) (\<lambda>s1. Inr (rs, s1))
       else Inl Exit)"
    using Nil.prems(1) q by (simp add: deref_def Let_def s0_def)
  have c0: "map_of (connections s0) c = Some cc" using Nil.prems(1) by (simp add: s0_def)
  have f0: "filter (\<lambda>x. fst x \<noteq> c) (connections s0) = filter (\<lambda>x. fst x \<noteq> c) (connections s)"
    "channels s0 = channels s" "send_queue s0 = send_queue s"
    "sys_close_log s0 = sys_close_log s" "services s0 = services s"
    by (simp_all add: s0_def)
  show ?case
    unfolding list.map append_Nil run
    by (rule exI [of _ s0], rule exI [of _ cc]) (intro conjI refl c0 q f0)
next
  case (Cons n ns)
  from Cons.prems(2) obtain mb0 mq0 where q: "message_queue cc = mb0 # mq0"
    by (cases "message_queue cc") auto
  let ?left = "int (length (mb_data mb0)) - mb_pos mb0"
  from Cons.prems(2) q have n: "\<not> ?left < int n"
    by (auto split: if_splits)
  define q' where "q' = (if int n = ?left then mq0 else mb0\<lparr>mb_pos := mb_pos mb0 + int n\<rparr> # mq0)"
  from Cons.prems(2) q n have aw: "after_writes ns q' = Some (mb # mq)"
    by (simp add: q'_def split: if_splits)
  define s1 where "s1 = s\<lparr>sys_write_log :=
                       sys_write_log s @ [(fd cc, drop (nat (mb_pos mb0)) (mb_data mb0))],
                     connections := modify c (\<lambda>cc. cc\<lparr>message_queue := q'\<rparr>) (connections s)\<rparr>"
  have run: "drain_loop c (map Written (n # ns) @ WriteError e # rs) s =
             drain_loop c (map Written ns @ WriteError e # rs) s1"
    using Cons.prems(1) q n by (simp add: deref_def Let_def s1_def q'_def)
  have c1: "map_of (connections s1) c = Some (cc\<lparr>message_queue := q'\<rparr>)"
    using Cons.prems(1) by (simp add: s1_def map_of_modify)
  have aw': "after_writes ns (message_queue (cc\<lparr>message_queue := q'\<rparr>)) = Some (mb # mq)"
    using aw by simp
  have f1: "filter (\<lambda>x. fst x \<noteq> c) (connections s1) = filter (\<lambda>x. fst x \<noteq> c) (connections s)"
    "channels s1 = channels s" "send_queue s1 = send_queue s"
    "sys_close_log s1 = sys_close_log s" "services s1 = services s"
    by (simp_all add: s1_def filter_modify_other)
  from Cons.IH [OF c1 aw'] show ?case unfolding run f1 by simp
qed

lemma handle_client_connection_event_write_error:
  assumes "map_of (connections s) c = Some cc"
    and "after_writes ns (message_queue cc) = Some (mb # mq)"
    and "sys_write s = map Written ns @ WriteError e # rs"
    and "\<not> EPOLLERR ev" and "\<not> EPOLLIN ev" and "EPOLLOUT ev"
  shows "e = ECONNRESET \<Longrightarrow> handle_client_connection_event c ev s = Inr s' \<Longrightarrow>
           closed_and_removed c cc s s' \<and> sys_write s' = rs"
    and "e = ECONNRESET \<Longrightarrow> list_all (channel_ready s) (associations cc) \<Longrightarrow>
           \<exists>s'. handle_client_connection_event c ev s = Inr s'"
    and "e \<noteq> EAGAIN \<Longrightarrow> e \<noteq> EWOULDBLOCK \<Longrightarrow> e \<noteq> ECONNRESET \<Longrightarrow>
           handle_client_connection_event c ev s = Inl Exit"
proof -
  from drain_loop_error [OF assms(1,2), of e rs] obtain s0 cc0 where
    d: "drain_loop c (map Written ns @ WriteError e # rs) s =
             (if e = EAGAIN \<or> e = EWOULDBLOCK then Inr (rs, s0)
              else if e = ECONNRESET
              then bindE (close_and_remove_connection c s0) (\<lambda>s1. Inr (rs, s1))
              else Inl Exit)"
    and c0: "map_of (connections s0) c = Some cc0"
    and same: "fd cc0 = fd cc" "associations cc0 = associations cc"
      "filter (\<lambda>x. fst x \<noteq> c) (connections s0) = filter (\<lambda>x. fst x \<noteq> c) (connections s)"
      "sys_close_log s0 = sys_close_log s" "services s0 = services s"
    and chans: "channels s0 = channels s" "send_queue s0 = send_queue s"
    by blast
  have h: "handle_client_connection_event c ev s =
      bindE (drain_loop c (map Written ns @ WriteError e # rs) s)
        (\<lambda>(ws, s3). Inr (s3\<lparr>sys_write := ws\<rparr>))"
    using assms(3-6) by (simp add: handle_client_connection_event_def)
  show "closed_and_removed c cc s s' \<and> sys_write s' = rs"
    if "e = ECONNRESET" "handle_client_connection_event c ev s = Inr s'"
  proof -
    from that obtain s3 where cl: "close_and_remove_connection c s0 = Inr s3"
      and s': "s' = s3\<lparr>sys_write := rs\<rparr>"
      unfolding h d by (auto simp: bindE_eq_Inr)
    have "closed_and_removed c cc0 s0 s3" by (rule close_and_remove_connection_spec [OF cl c0])
    moreover have "closed_and_removed c cc0 s0 s3 = closed_and_removed c cc s s3"
      by (rule closed_and_removed_cong [OF same])
    moreover have "channel_reset (s3\<lparr>sys_write := rs\<rparr>) = channel_reset s3"
      by (rule ext, rule channel_reset_cong) simp_all
    ultimately show ?thesis by (simp add: s' closed_and_removed_def)
  qed
  show "\<exists>s'. handle_client_connection_event c ev s = Inr s'"
    if "e = ECONNRESET" "list_all (channel_ready s) (associations cc)"
  proof -
    have "channel_ready s0 = channel_ready s"
      by (rule ext, rule channel_ready_cong) (simp_all add: chans)
    with that(2) same(2) have "list_all (channel_ready s0) (associations cc0)" by simp
    from close_and_remove_connection_returns [OF c0 this] obtain s3 where
      "close_and_remove_connection c s0 = Inr s3" by blast
    with that(1) show ?thesis unfolding h d by simp
  qed
  show "handle_client_connection_event c ev s = Inl Exit"
    if "e \<noteq> EAGAIN" "e \<noteq> EWOULDBLOCK" "e \<noteq> ECONNRESET"
    using that unfolding h d by simp
qed





section \<open>The claims\<close>

text \<open>
  C1.  When the send queue is in order, \<^verbatim>\<open>flush_send_queue\<close> returns, and its transfers on the
  bus are exactly the writes \<open>r2a_writes\<close> that put the serialization of the packets \<open>sent\<close>
  into the R2A ring at \<open>base_address + 260\<close>, from the index \<^verbatim>\<open>R2A_TAIL\<close> on and turning round
  at the end of the ring.  \<open>sent\<close> is a list of whole packets and takes at most
  \<open>255 - ((R2A_TAIL - R2A_HEAD) & 0xFF)\<close> bytes.  It is the longest beginning of the
  order of service that fits into this room: the order of service is \<open>sent\<close> followed by
  the order of service of the state after the flush, and every beginning of the order of
  service that fits is a beginning of \<open>sent\<close>; so the flush stops at the first packet
  that, with its three bytes of header, does not fit, and sends none behind it.  What was
  queued before is what was sent plus what is still queued, so no packet is split over
  two flushes.  When the packet at the front does not fit at the start, nothing at all is
  written.  The tail moves by the bytes written, modulo 256, and the ring length grows by
  the bytes written and stays at most 255.
\<close>

theorem flush_send_queue_ring:
  assumes "send_queue_ok s" and "distinct (map fst (channels s))"
  shows "(\<exists>any_sent s' sent ws.
            flush_send_queue s = Inr (any_sent, s') \<and>
            spi_log s' = spi_log s @ ws \<and>
            ws = r2a_writes s (serialize_all sent) \<and>
            sram_payload ws = serialize_all sent \<and>
            int (length (serialize_all sent)) = framed_size sent \<and>
            int (length (serialize_all sent)) \<le> 255 - r2a_len s \<and>
            service_order s = sent @ service_order s' \<and>
            (\<forall>sent'. prefix sent' (service_order s) \<and> framed_size sent' \<le> 255 - r2a_len s
                      \<longrightarrow> prefix sent' sent) \<and>
            pending s = mset sent + pending s' \<and>
            (case front_packet s' of
               None \<Rightarrow> send_queue s' = []
             | Some (cid, pb) \<Rightarrow>
                 255 - r2a_len s - int (length (serialize_all sent))
                   < 3 + int (length (pb_data pb))) \<and>
            r2a_len s' = r2a_len s + int (length (serialize_all sent)) \<and>
            r2a_len s' \<le> 255 \<and>
            channel_status s' = (channel_status s)
              (R2A_TAIL_OFFSET :=
                 of_nat ((unat (channel_status s R2A_TAIL_OFFSET) + length (serialize_all sent))
                          mod 256)) \<and>
            any_sent = (sent \<noteq> [])) \<and>
         (\<forall>cid pb. front_packet s = Some (cid, pb) \<and>
                   255 - r2a_len s < 3 + int (length (pb_data pb)) \<longrightarrow>
                   flush_send_queue s = Inr (False, s))"
proof (rule conjI)
  from flush_send_queue_spec [OF assms] obtain any_sent s' sent ws where
    c1: "flush_send_queue s = Inr (any_sent, s')"
    and c2: "spi_log s' = spi_log s @ ws"
    and c3: "ws = r2a_writes s (serialize_all sent)"
    and c4: "sram_payload ws = serialize_all sent"
    and c5: "int (length (serialize_all sent)) \<le> 255 - r2a_len s"
    and c6: "pending s = mset sent + pending s'"
    and c7: "service_order s = sent @ service_order s'"
    and c8: "(case front_packet s' of
               None \<Rightarrow> send_queue s' = []
             | Some (cid, pb) \<Rightarrow>
                 255 - r2a_len s - int (length (serialize_all sent))
                   < 3 + int (length (pb_data pb)))"
    and c9: "r2a_len s' = r2a_len s + int (length (serialize_all sent))"
    and c10: "r2a_len s' \<le> 255"
    and c11: "channel_status s' = (channel_status s)
              (R2A_TAIL_OFFSET :=
                 of_nat ((unat (channel_status s R2A_TAIL_OFFSET) + length (serialize_all sent))
                          mod 256))"
    and c12: "any_sent = (sent \<noteq> [])"
    by blast
  have len: "int (length (serialize_all sent)) = framed_size sent"
    by (rule length_serialize_all)
  have longest: "\<forall>sent'. prefix sent' (service_order s) \<and> framed_size sent' \<le> 255 - r2a_len s
                      \<longrightarrow> prefix sent' sent"
    using longest_fitting_prefix [OF c7 c8 [unfolded len]] by blast
  show "\<exists>any_sent s' sent ws.
            flush_send_queue s = Inr (any_sent, s') \<and>
            spi_log s' = spi_log s @ ws \<and>
            ws = r2a_writes s (serialize_all sent) \<and>
            sram_payload ws = serialize_all sent \<and>
            int (length (serialize_all sent)) = framed_size sent \<and>
            int (length (serialize_all sent)) \<le> 255 - r2a_len s \<and>
            service_order s = sent @ service_order s' \<and>
            (\<forall>sent'. prefix sent' (service_order s) \<and> framed_size sent' \<le> 255 - r2a_len s
                      \<longrightarrow> prefix sent' sent) \<and>
            pending s = mset sent + pending s' \<and>
            (case front_packet s' of
               None \<Rightarrow> send_queue s' = []
             | Some (cid, pb) \<Rightarrow>
                 255 - r2a_len s - int (length (serialize_all sent))
                   < 3 + int (length (pb_data pb))) \<and>
            r2a_len s' = r2a_len s + int (length (serialize_all sent)) \<and>
            r2a_len s' \<le> 255 \<and>
            channel_status s' = (channel_status s)
              (R2A_TAIL_OFFSET :=
                 of_nat ((unat (channel_status s R2A_TAIL_OFFSET) + length (serialize_all sent))
                          mod 256)) \<and>
            any_sent = (sent \<noteq> [])"
    by (rule exI [of _ any_sent], rule exI [of _ s'], rule exI [of _ sent], rule exI [of _ ws])
       (intro conjI c1 c2 c3 c4 len c5 c7 longest c6 c8 c9 c10 c11 c12)
next
  show "\<forall>cid pb. front_packet s = Some (cid, pb) \<and>
                   255 - r2a_len s < 3 + int (length (pb_data pb)) \<longrightarrow>
                   flush_send_queue s = Inr (False, s)"
    using flush_blocked by blast
qed

text \<open>
  The theorem at the two channels of \<open>example_blocked\<close>: the order of service is the data
  of channel 7, the data of channel 9, the end of stream of channel 7.  Ten bytes are free;
  the first packet takes five, the second would take seven, so the first packet alone is
  written, and the end of stream, which would fit, stays behind the packet that does not.
  The five bytes go out in two writes, one byte at the last index of the ring (address
  \<^verbatim>\<open>0x12340 + 260 + 255 = 0x12543\<close>) and four at its start (\<^verbatim>\<open>0x12444\<close>); the tail
  goes from 255 to 4.  At \<open>example_oversized\<close> the packet at the front does not fit and
  nothing is written.
\<close>

theorem flush_send_queue_ring_witness:
  "send_queue_ok example_blocked \<and> distinct (map fst (channels example_blocked)) \<and>
   service_order example_blocked =
     [(7, \<lparr>pb_type = PKT_DATA, pb_data = [0xAA, 0xBB]\<rparr>),
      (9, \<lparr>pb_type = PKT_DATA, pb_data = [1, 2, 3, 4]\<rparr>),
      (7, \<lparr>pb_type = PKT_EOS, pb_data = []\<rparr>)] \<and>
   255 - r2a_len example_blocked = 10 \<and>
   (\<exists>s'. flush_send_queue example_blocked = Inr (True, s') \<and>
      spi_log s' = [\<lparr>tr_tx = [0x11, 0x25, 0x43, 2], tr_len = 4\<rparr>,
                    \<lparr>tr_tx = [0x11, 0x24, 0x44, 6, 7, 0xAA, 0xBB], tr_len = 7\<rparr>] \<and>
      service_order s' =
        [(9, \<lparr>pb_type = PKT_DATA, pb_data = [1, 2, 3, 4]\<rparr>),
         (7, \<lparr>pb_type = PKT_EOS, pb_data = []\<rparr>)] \<and>
      channel_status s' R2A_TAIL_OFFSET = 4 \<and>
      r2a_len s' = 250) \<and>
   send_queue_ok example_oversized \<and> distinct (map fst (channels example_oversized)) \<and>
   front_packet example_oversized = Some (7, \<lparr>pb_type = PKT_DATA, pb_data = replicate 253 0\<rparr>) \<and>
   flush_send_queue example_oversized = Inr (False, example_oversized)"
proof -
  let ?d1 = "(7::int, \<lparr>pb_type = PKT_DATA, pb_data = [0xAA, 0xBB]\<rparr>)"
  let ?d2 = "(9::int, \<lparr>pb_type = PKT_DATA, pb_data = [1, 2, 3, 4]\<rparr>)"
  let ?e3 = "(7::int, \<lparr>pb_type = PKT_EOS, pb_data = []\<rparr>)"
  have a: "send_queue_ok example_blocked" "distinct (map fst (channels example_blocked))"
    by (simp_all add: send_queue_ok_def example_blocked_def example_channel_def)
  have b: "send_queue_ok example_oversized" "distinct (map fst (channels example_oversized))"
    by (simp_all add: send_queue_ok_def example_oversized_def example_channel_def)
  have fp: "front_packet example_oversized = Some (7, \<lparr>pb_type = PKT_DATA, pb_data = replicate 253 0\<rparr>)"
    by (simp add: front_packet_def example_oversized_def example_channel_def)
  have room: "255 - r2a_len example_oversized
      < 3 + int (length (pb_data \<lparr>pb_type = PKT_DATA, pb_data = replicate 253 0\<rparr>))"
    by (simp add: r2a_len_def example_oversized_def initial_daemon_def)
  have so: "service_order example_blocked = [?d1, ?d2, ?e3]"
    by (simp add: service_order_def queue_of_def example_blocked_def example_channel_def)
  have r: "255 - r2a_len example_blocked = 10"
    by (simp add: r2a_len_def example_blocked_def)
  have log0: "spi_log example_blocked = []"
    by (simp add: example_blocked_def initial_daemon_def)
  from flush_send_queue_ring [OF a] obtain any_sent s' sent ws where
    c1: "flush_send_queue example_blocked = Inr (any_sent, s')"
    and c2: "spi_log s' = spi_log example_blocked @ ws"
    and c3: "ws = r2a_writes example_blocked (serialize_all sent)"
    and c5: "int (length (serialize_all sent)) = framed_size sent"
    and c6: "int (length (serialize_all sent)) \<le> 255 - r2a_len example_blocked"
    and c7: "service_order example_blocked = sent @ service_order s'"
    and c8: "\<forall>sent'. prefix sent' (service_order example_blocked) \<and>
                framed_size sent' \<le> 255 - r2a_len example_blocked \<longrightarrow> prefix sent' sent"
    and c9: "r2a_len s' = r2a_len example_blocked + int (length (serialize_all sent))"
    and c11: "channel_status s' = (channel_status example_blocked)
              (R2A_TAIL_OFFSET :=
                 of_nat ((unat (channel_status example_blocked R2A_TAIL_OFFSET)
                            + length (serialize_all sent)) mod 256))"
    and c12: "any_sent = (sent \<noteq> [])"
    by blast
  have "prefix [?d1] sent"
    using c8 [rule_format, of "[?d1]"] by (simp add: so r)
  then obtain rest where sent: "sent = ?d1 # rest" by (auto simp: prefix_def)
  have "rest = []"
  proof (cases rest)
    case Nil then show ?thesis .
  next
    case (Cons x xs)
    with c7 sent so have "x = ?d2" by simp
    with Cons sent c5 c6 r have False using framed_size_nonneg [of xs] by simp
    then show ?thesis ..
  qed
  with sent have sent1: "sent = [?d1]" by simp
  have ser: "serialize_all sent = [2, 6, 7, 0xAA, 0xBB]"
    by (simp add: sent1 serialize_all_def serialize_packet_def)
  have w: "ws = [\<lparr>tr_tx = [0x11, 0x25, 0x43, 2], tr_len = 4\<rparr>,
                 \<lparr>tr_tx = [0x11, 0x24, 0x44, 6, 7, 0xAA, 0xBB], tr_len = 7\<rparr>]"
    unfolding c3 ser
    by (simp add: r2a_writes_def r2a_write_def sram_write_frame_def example_blocked_def)
  have so': "service_order s' = [?d2, ?e3]" using c7 so sent1 by simp
  have tl: "channel_status s' R2A_TAIL_OFFSET = 4"
    unfolding c11 ser by (simp add: example_blocked_def)
  have len': "r2a_len s' = 250" using c9 r by (simp add: ser)
  have any: "any_sent = True" using c12 sent1 by simp
  have "\<exists>s'. flush_send_queue example_blocked = Inr (True, s') \<and>
      spi_log s' = [\<lparr>tr_tx = [0x11, 0x25, 0x43, 2], tr_len = 4\<rparr>,
                    \<lparr>tr_tx = [0x11, 0x24, 0x44, 6, 7, 0xAA, 0xBB], tr_len = 7\<rparr>] \<and>
      service_order s' = [?d2, ?e3] \<and>
      channel_status s' R2A_TAIL_OFFSET = 4 \<and>
      r2a_len s' = 250"
    using c1 c2 w so' tl len' any log0 by auto
  moreover from flush_send_queue_ring [OF b] fp room
  have "flush_send_queue example_oversized = Inr (False, example_oversized)" by blast
  ultimately show ?thesis using a b fp so r by blast
qed

text \<open>
  The flush of the first example, computed: the four bytes 1, 5, 7, 3 go out in two
  SRAM writes, two bytes at offset 260 + 254 and two at offset 260, and the tail moves
  to 2.
\<close>

lemma flush_example_pending:
  "flush_send_queue example_pending =
     Inr (True, example_pending
       \<lparr>channels := [], send_queue := [],
        channel_status := (\<lambda>i. if i = R2A_TAIL_OFFSET then 2 else if i = R2A_HEAD_OFFSET then 254 else 0),
        channel_status_updated := 1,
        spi_log := [\<lparr>tr_tx = [0x10, 0x02, 0x02, 1, 5], tr_len = 5\<rparr>,
                    \<lparr>tr_tx = [0x10, 0x01, 0x04, 7, 3], tr_len = 5\<rparr>]\<rparr>)"
  by (simp add: flush_send_queue_def flush_loop.simps example_pending_def example_channel_def
      initial_daemon_def Let_def serialize_packet_def modify_def
      remove_channel_if_not_associated_and_empty_pq_def spi_write_mem_def transfer_def
      spi_header_def fun_eq_iff)

text \<open>
  C9.  A packet of 253 bytes or more at the front of the send queue is never written,
  whatever the ring indices are: the room \<open>255 - ((R2A_TAIL - R2A_HEAD) & 0xFF)\<close> is below
  its framed size, and \<^verbatim>\<open>flush_send_queue\<close> returns false and leaves the whole state as it
  is, the packets behind it included.
\<close>

theorem oversized_packet_never_sent:
  assumes "front_packet s = Some (cid, pb)" and "253 \<le> length (pb_data pb)"
  shows "255 - r2a_len (s\<lparr>channel_status := cs\<rparr>) < 3 + int (length (pb_data pb)) \<and>
         flush_send_queue (s\<lparr>channel_status := cs\<rparr>) = Inr (False, s\<lparr>channel_status := cs\<rparr>)"
proof -
  have "0 \<le> r2a_len (s\<lparr>channel_status := cs\<rparr>)" by (simp add: r2a_len_def and_255)
  with assms(2) have room: "255 - r2a_len (s\<lparr>channel_status := cs\<rparr>) < 3 + int (length (pb_data pb))"
    by linarith
  have "front_packet (s\<lparr>channel_status := cs\<rparr>) = Some (cid, pb)"
    using assms(1) by (simp add: front_packet_def cong: list.case_cong)
  from flush_blocked [OF this room] room show ?thesis by simp
qed

theorem oversized_packet_never_sent_witness:
  "front_packet example_oversized = Some (7, \<lparr>pb_type = PKT_DATA, pb_data = replicate 253 0\<rparr>) \<and>
   (253::nat) \<le> length (replicate 253 (0::uint8_t)) \<and>
   flush_send_queue (example_oversized\<lparr>channel_status := (\<lambda>i. if i = R2A_TAIL_OFFSET then 9 else 0)\<rparr>)
     = Inr (False, example_oversized\<lparr>channel_status := (\<lambda>i. if i = R2A_TAIL_OFFSET then 9 else 0)\<rparr>)"
proof -
  have fp: "front_packet example_oversized = Some (7, \<lparr>pb_type = PKT_DATA, pb_data = replicate 253 0\<rparr>)"
    by (simp add: front_packet_def example_oversized_def example_channel_def)
  have big: "253 \<le> length (pb_data \<lparr>pb_type = PKT_DATA, pb_data = replicate 253 (0::uint8_t)\<rparr>)"
    by simp
  from oversized_packet_never_sent [OF fp big, of "\<lambda>i. if i = R2A_TAIL_OFFSET then 9 else 0"] fp
  show ?thesis by simp
qed

text \<open>
  C7.  \<^verbatim>\<open>init_server_socket\<close> creates a TCP socket (\<^verbatim>\<open>AF_INET\<close>, \<^verbatim>\<open>SOCK_STREAM\<close>), binds it to
  port 7110 and listens with backlog 16, but the address it binds to is \<^verbatim>\<open>INADDR_ANY\<close>
  (0.0.0.0, every interface) and not 127.0.0.1.
\<close>

theorem init_server_socket_address:
  "sock_family init_server_socket = AF_INET \<and> sock_kind init_server_socket = SOCK_STREAM \<and>
   sin_port init_server_socket = 7110 \<and> backlog init_server_socket = 16 \<and>
   sin_addr init_server_socket = INADDR_ANY \<and> sin_addr init_server_socket \<noteq> INADDR_LOOPBACK"
  by (simp add: init_server_socket_def)

text \<open>
  C3.  In every reachable state the send queue is in order (\<open>send_queue_ok\<close>): no channel
  stands in it twice, and every channel in it is a node of the channel list with a packet
  in its queue.  The three operations on the queue keep it in order: a state in order and a
  call of \<^verbatim>\<open>create_and_enqueue_packet\<close> or of \<^verbatim>\<open>clear_packet_queue\<close> that returns give a state
  in order; and \<^verbatim>\<open>flush_send_queue\<close>, from a state in order whose channel nodes have different
  addresses (as the nodes of a \<^verbatim>\<open>std::list\<close> have), returns, with a state in order.  The calls
  that do not return are those whose behaviour is undefined: a pointer that is not a node
  of the channel list, or a \<^verbatim>\<open>memcpy\<close> from too short a buffer.
\<close>

theorem send_queue_uniqueness:
  "(reachable m \<longrightarrow> send_queue_ok (globals m)) \<and>
   (send_queue_ok s \<and> create_and_enqueue_packet p t d l s = Inr s1 \<longrightarrow> send_queue_ok s1) \<and>
   (send_queue_ok s \<and> clear_packet_queue p s = Inr s2 \<longrightarrow> send_queue_ok s2) \<and>
   (send_queue_ok s \<and> distinct (map fst (channels s))
      \<longrightarrow> (\<exists>b s3. flush_send_queue s = Inr (b, s3) \<and> send_queue_ok s3))"
proof (intro conjI impI)
  assume "reachable m"
  then have "daemon_inv (globals m)" by (rule reachable_inv)
  then show "send_queue_ok (globals m)" by (simp add: daemon_inv_def)
next
  assume "send_queue_ok s \<and> create_and_enqueue_packet p t d l s = Inr s1"
  then show "send_queue_ok s1" by (auto intro: create_and_enqueue_packet_send_queue_ok)
next
  assume "send_queue_ok s \<and> clear_packet_queue p s = Inr s2"
  then show "send_queue_ok s2" by (auto intro: clear_packet_queue_send_queue_ok)
next
  assume "send_queue_ok s \<and> distinct (map fst (channels s))"
  then show "\<exists>b s3. flush_send_queue s = Inr (b, s3) \<and> send_queue_ok s3"
    by (auto intro: flush_send_queue_returns)
qed

text \<open>
  The theorem at the state after the start, which is reachable, and at \<open>example_blocked\<close>,
  whose send queue holds both channels: an end of stream for the second channel leaves
  the send queue as it is, since the channel is in it already; clearing the queue of the
  first channel takes it out of the send queue.
\<close>

theorem send_queue_uniqueness_witness:
  "reachable example_idle \<and> send_queue_ok (globals example_idle) \<and>
   send_queue_ok example_blocked \<and> send_queue example_blocked = [0, 1] \<and>
   (\<exists>s1. create_and_enqueue_packet 1 PKT_EOS None 0 example_blocked = Inr s1 \<and>
         send_queue s1 = [0, 1] \<and>
         map (\<lambda>x. length (packet_queue (snd x))) (channels s1) = [2, 2] \<and> send_queue_ok s1) \<and>
   (\<exists>s2. clear_packet_queue 0 example_blocked = Inr s2 \<and>
         send_queue s2 = [1] \<and>
         map (\<lambda>x. length (packet_queue (snd x))) (channels s2) = [0, 1] \<and> send_queue_ok s2) \<and>
   distinct (map fst (channels example_blocked)) \<and>
   (\<exists>b s3. flush_send_queue example_blocked = Inr (b, s3) \<and> send_queue_ok s3)"
proof -
  have ok: "send_queue_ok example_blocked" and d: "distinct (map fst (channels example_blocked))"
    and sq: "send_queue example_blocked = [0, 1]"
    by (simp_all add: send_queue_ok_def example_blocked_def example_channel_def)
  obtain s1 where e1: "create_and_enqueue_packet 1 PKT_EOS None 0 example_blocked = Inr s1"
    and q1: "send_queue s1 = [0, 1]"
      "map (\<lambda>x. length (packet_queue (snd x))) (channels s1) = [2, 2]"
    by (simp add: create_and_enqueue_packet_def example_blocked_def example_channel_def
        deref_def copy_bytes_def modify_def)
  obtain s2 where e2: "clear_packet_queue 0 example_blocked = Inr s2"
    and q2: "send_queue s2 = [1]"
      "map (\<lambda>x. length (packet_queue (snd x))) (channels s2) = [0, 1]"
    by (simp add: clear_packet_queue_def example_blocked_def example_channel_def
        deref_def erase_find_def modify_def)
  note inst = send_queue_uniqueness [of example_idle example_blocked]
  from inst example_idle_reachable have a: "send_queue_ok (globals example_idle)" by blast
  from send_queue_uniqueness [of example_idle example_blocked 1 PKT_EOS None 0 s1] ok e1
  have b: "send_queue_ok s1" by blast
  from send_queue_uniqueness [of example_idle example_blocked 0 _ _ _ _ s2] ok e2
  have c: "send_queue_ok s2" by blast
  from inst ok d have f: "\<exists>b s3. flush_send_queue example_blocked = Inr (b, s3) \<and> send_queue_ok s3"
    by blast
  have x1: "\<exists>s1. create_and_enqueue_packet 1 PKT_EOS None 0 example_blocked = Inr s1 \<and>
         send_queue s1 = [0, 1] \<and>
         map (\<lambda>x. length (packet_queue (snd x))) (channels s1) = [2, 2] \<and> send_queue_ok s1"
    by (rule exI [of _ s1]) (intro conjI e1 q1 b)
  have x2: "\<exists>s2. clear_packet_queue 0 example_blocked = Inr s2 \<and>
         send_queue s2 = [1] \<and>
         map (\<lambda>x. length (packet_queue (snd x))) (channels s2) = [0, 1] \<and> send_queue_ok s2"
    by (rule exI [of _ s2]) (intro conjI e2 q2 c)
  show ?thesis by (intro conjI example_idle_reachable a ok sq x1 x2 d f)
qed

text \<open>
  C10.  A \<^verbatim>\<open>MSG_DATA\<close> from the client \<open>c\<close> whose stream id is that of the associated channel
  \<open>p\<close>: \<^verbatim>\<open>handle_msg_data\<close> passes the 32 bits of \<^verbatim>\<open>header.length\<close> for the parameter
  \<^verbatim>\<open>uint8_t length\<close> of \<^verbatim>\<open>create_and_enqueue_packet\<close>.  With a payload that holds at least
  the bytes that are copied (on the read path it holds \<^verbatim>\<open>header.length\<close> bytes), the call
  returns, and the packet queue of the channel has one packet more, a \<^verbatim>\<open>PKT_DATA\<close> whose
  payload is the first \<open>header.length mod 256\<close> bytes of the payload of the message.  The
  rest of the payload is dropped in silence: nothing is written or queued for any client,
  and no connection changes.
\<close>

theorem msg_data_length_truncated:
  assumes "map_of (connections s) c = Some cc"
    and "get_associated_channel_by_stream_id cc (sint (header_stream_id (header cc))) s
           = Inr (Some p)"
    and "map_of (channels s) p = Some ch"
    and "unat (header_length (header cc)) mod 256 \<le> length (payload cc)"
  shows "\<exists>s' ch' pkt.
           handle_msg_data c s = Inr s' \<and>
           map_of (channels s') p = Some ch' \<and>
           packet_queue ch' = packet_queue ch @ [pkt] \<and>
           pb_type pkt = PKT_DATA \<and>
           pb_data pkt = take (unat (header_length (header cc)) mod 256) (payload cc) \<and>
           int (length (pb_data pkt)) = uint (header_length (header cc)) mod 256 \<and>
           connections s' = connections s \<and>
           sys_write_log s' = sys_write_log s"
proof -
  define n where "n = unat (header_length (header cc)) mod 256"
  define pkt where "pkt = \<lparr>pb_type = PKT_DATA, pb_data = take n (payload cc)\<rparr>"
  define s' where "s' = s\<lparr>send_queue :=
                  (if packet_queue ch = [] then send_queue s @ [p] else send_queue s),
                channels :=
                  modify p (\<lambda>ch. ch\<lparr>packet_queue := packet_queue ch @ [pkt]\<rparr>) (channels s)\<rparr>"
  have cp: "copy_bytes (Some (payload cc)) n = Inr (take n (payload cc))"
    using assms(4) by (simp add: copy_bytes_def n_def)
  have run: "handle_msg_data c s = Inr s'"
    unfolding handle_msg_data_def create_and_enqueue_packet_def
    using assms(1-3) cp
    by (simp add: deref_def unat_ucast_8 n_def [symmetric] s'_def pkt_def)
  have ch': "map_of (channels s') p = Some (ch\<lparr>packet_queue := packet_queue ch @ [pkt]\<rparr>)"
    using assms(3) by (simp add: s'_def map_of_modify)
  have len: "int (length (pb_data pkt)) = uint (header_length (header cc)) mod 256"
  proof -
    have "length (pb_data pkt) = n" using assms(4) by (simp add: pkt_def n_def)
    moreover have "int n = int (unat (header_length (header cc))) mod 256"
      by (simp add: n_def of_nat_mod)
    moreover have "int (unat (header_length (header cc))) = uint (header_length (header cc))"
      by (rule uint_nat [symmetric])
    ultimately show ?thesis by simp
  qed
  show ?thesis
    by (rule exI [of _ s'], rule exI [of _ "ch\<lparr>packet_queue := packet_queue ch @ [pkt]\<rparr>"],
        rule exI [of _ pkt])
       (simp add: run ch' len, simp add: pkt_def n_def s'_def)
qed

text \<open>
  The theorem at \<open>example_stream\<close>: the header says 258 bytes, the payload has 258 bytes,
  and the packet that is queued for the channel 7 has the first two of them.
\<close>

theorem msg_data_length_truncated_witness:
  "map_of (connections example_stream) 1 \<noteq> None \<and>
   uint (header_length (header (snd (hd (connections example_stream))))) = 258 \<and>
   length (payload (snd (hd (connections example_stream)))) = 258 \<and>
   (\<exists>s' ch'. handle_msg_data 1 example_stream = Inr s' \<and>
      map_of (channels s') 0 = Some ch' \<and>
      packet_queue ch' = [\<lparr>pb_type = PKT_DATA, pb_data = [1, 2]\<rparr>])"
proof -
  define cc where "cc = snd (hd (connections example_stream))"
  define ch where "ch = (example_channel [])\<lparr>association := Some 1, stream_id := 1\<rparr>"
  have c: "map_of (connections example_stream) 1 = Some cc"
    by (simp add: cc_def example_stream_def)
  have hl: "header_length (header cc) = 258"
    by (simp add: cc_def example_stream_def new_connection_def header_length_def decode_u32_def)
  have sid: "header_stream_id (header cc) = 1"
    by (simp add: cc_def example_stream_def new_connection_def header_stream_id_def decode_u32_def)
  have g: "get_associated_channel_by_stream_id cc (sint (header_stream_id (header cc))) example_stream
           = Inr (Some 0)"
    unfolding sid
    by (simp add: get_associated_channel_by_stream_id_def cc_def example_stream_def
        new_connection_def deref_def example_channel_def)
  have p: "map_of (channels example_stream) 0 = Some ch"
    by (simp add: ch_def example_stream_def)
  have pl: "payload cc = 1 # 2 # replicate 256 0"
    by (simp add: cc_def example_stream_def new_connection_def)
  have le: "unat (header_length (header cc)) mod 256 \<le> length (payload cc)"
    by (simp add: hl pl)
  from msg_data_length_truncated [OF c g p le] obtain s' ch' pkt where
    r: "handle_msg_data 1 example_stream = Inr s'" "map_of (channels s') 0 = Some ch'"
      "packet_queue ch' = packet_queue ch @ [pkt]" "pb_type pkt = PKT_DATA"
      "pb_data pkt = take (unat (header_length (header cc)) mod 256) (payload cc)"
    by blast
  have "pkt = \<lparr>pb_type = PKT_DATA, pb_data = [1, 2]\<rparr>"
    using r(4,5) by (cases pkt) (simp add: hl pl)
  with r(3) have "packet_queue ch' = [\<lparr>pb_type = PKT_DATA, pb_data = [1, 2]\<rparr>]"
    by (simp add: ch_def example_channel_def)
  with r(1,2) have "\<exists>s' ch'. handle_msg_data 1 example_stream = Inr s' \<and>
      map_of (channels s') 0 = Some ch' \<and>
      packet_queue ch' = [\<lparr>pb_type = PKT_DATA, pb_data = [1, 2]\<rparr>]" by blast
  moreover have "uint (header_length (header cc)) = 258" by (simp add: hl)
  moreover have "length (payload cc) = 258" by (simp add: pl)
  ultimately show ?thesis using c unfolding cc_def by simp
qed

text \<open>
  C8.  In every reachable state the names of the registered services are all different.
  \<^verbatim>\<open>handle_msg_register_req\<close>, when it returns, has looked the payload of the request up
  among the registered names: when the name is registered already, the registry stays as
  it is and the client is given \<^verbatim>\<open>MSG_REGISTER_RES\<close> with the byte \<^verbatim>\<open>MSG_FAIL\<close>; when it is
  not, one service of this name, owned by the client, is put at the end of the registry
  and the client is given \<^verbatim>\<open>MSG_REGISTER_RES\<close> with the byte \<^verbatim>\<open>MSG_SUCCESS\<close>.
  \<^verbatim>\<open>handle_pkt_connect\<close>, when it returns, has left the registry as it is, or has put at its
  end one service with the name of the packet, owned by the connection it made for the
  program started on demand; and this only when the name was not registered and is
  configured to start on demand.
\<close>

theorem registry_exclusive:
  "(reachable m \<longrightarrow> distinct (map srv_name (services (globals m)))) \<and>
   (handle_msg_register_req c s = Inr s' \<and> map_of (connections s) c = Some cc \<longrightarrow>
      (if payload cc \<in> set (map srv_name (services s))
       then services s' = services s \<and>
            offered c (encode_header 1 0 MSG_REGISTER_RES @ [MSG_FAIL]) s s'
       else services s' = services s @ [\<lparr>srv_name = payload cc, srv_cc = c\<rparr>] \<and>
            offered c (encode_header 1 0 MSG_REGISTER_RES @ [MSG_SUCCESS]) s s')) \<and>
   (handle_pkt_connect cid data plen t = Inr t' \<longrightarrow>
      services t' = services t \<or>
      (take (nat plen) data \<notin> set (map srv_name (services t)) \<and>
       find (\<lambda>e. service_name e = take (nat plen) data) (on_demand_services t) \<noteq> None \<and>
       services t' =
         services t @ [\<lparr>srv_name = take (nat plen) data, srv_cc = Suc (next_ptr t)\<rparr>]))"
proof (intro conjI impI)
  assume "reachable m"
  then have "daemon_inv (globals m)" by (rule reachable_inv)
  then show "distinct (map srv_name (services (globals m)))" by (simp add: daemon_inv_def)
next
  assume "handle_msg_register_req c s = Inr s' \<and> map_of (connections s) c = Some cc"
  then show "if payload cc \<in> set (map srv_name (services s))
       then services s' = services s \<and>
            offered c (encode_header 1 0 MSG_REGISTER_RES @ [MSG_FAIL]) s s'
       else services s' = services s @ [\<lparr>srv_name = payload cc, srv_cc = c\<rparr>] \<and>
            offered c (encode_header 1 0 MSG_REGISTER_RES @ [MSG_SUCCESS]) s s'"
    using handle_msg_register_req_spec [of c s s' cc] by blast
next
  assume "handle_pkt_connect cid data plen t = Inr t'"
  then show "services t' = services t \<or>
      (take (nat plen) data \<notin> set (map srv_name (services t)) \<and>
       find (\<lambda>e. service_name e = take (nat plen) data) (on_demand_services t) \<noteq> None \<and>
       services t' =
         services t @ [\<lparr>srv_name = take (nat plen) data, srv_cc = Suc (next_ptr t)\<rparr>])"
    by (rule handle_pkt_connect_services)
qed

text \<open>
  The theorem at a state that the main loop reaches: a client is accepted on the
  descriptor 5 and sends \<^verbatim>\<open>MSG_REGISTER_REQ\<close> with the name \<^verbatim>\<open>ab\<close>; the registry then holds
  this one service.  At \<open>example_register\<close> the name is new: the service is recorded and
  the ten bytes written end with \<^verbatim>\<open>MSG_SUCCESS\<close>; with the name registered already the
  registry stays as it is and the bytes end with \<^verbatim>\<open>MSG_FAIL\<close>.  At \<open>example_on_demand\<close> a
  \<^verbatim>\<open>PKT_CONNECT\<close> for \<^verbatim>\<open>ab\<close> starts the program and registers the name for the new
  connection.
\<close>

theorem registry_exclusive_witness:
  "(\<exists>m. reachable m \<and> services (globals m) = [\<lparr>srv_name = [0x61, 0x62], srv_cc = 0\<rparr>] \<and>
        distinct (map srv_name (services (globals m)))) \<and>
   (\<exists>s'. handle_msg_register_req 1 example_register = Inr s' \<and>
        services s' = [\<lparr>srv_name = [0x61, 0x62], srv_cc = 1\<rparr>] \<and>
        take 1 (sys_write_log s') = [(5, [1, 0, 0, 0, 0, 0, 0, 0, 2, 1])]) \<and>
   (\<exists>s'. handle_msg_register_req 1
           (example_register\<lparr>services := [\<lparr>srv_name = [0x61, 0x62], srv_cc = 1\<rparr>]\<rparr>) = Inr s' \<and>
        services s' = [\<lparr>srv_name = [0x61, 0x62], srv_cc = 1\<rparr>] \<and>
        take 1 (sys_write_log s') = [(5, [1, 0, 0, 0, 0, 0, 0, 0, 2, 0])]) \<and>
   (\<exists>t'. handle_pkt_connect 7 [0x61, 0x62] 2 example_on_demand = Inr t' \<and>
        services t' = [\<lparr>srv_name = [0x61, 0x62], srv_cc = 1\<rparr>])"
proof -
  let ?ab = "[0x61, 0x62] :: uint8_t list"
  define cc where "cc = (new_connection 5)\<lparr>payload := ?ab\<rparr>"
  define s2 where "s2 = example_register\<lparr>services := [\<lparr>srv_name = ?ab, srv_cc = 1\<rparr>]\<rparr>"
  have hdr: "encode_header 1 0 MSG_REGISTER_RES = [1, 0, 0, 0, 0, 0, 0, 0, 2]"
    by (simp add: encode_header_def encode_u32_def)
  have c1: "map_of (connections example_register) 1 = Some cc"
    and c2: "map_of (connections s2) 1 = Some cc"
    by (simp_all add: example_register_def cc_def s2_def)
  have q: "message_queue cc = []" "fd cc = 5" "payload cc = ?ab"
    by (simp_all add: cc_def new_connection_def)
  have sv: "services example_register = []" "services s2 = [\<lparr>srv_name = ?ab, srv_cc = 1\<rparr>]"
    "sys_write_log example_register = []" "sys_write_log s2 = []"
    by (simp_all add: example_register_def s2_def initial_daemon_def)
  from example_registration obtain m where m: "reachable m"
    "services (globals m) = [\<lparr>srv_name = ?ab, srv_cc = 0\<rparr>]" by blast
  from registry_exclusive [where m = m] m(1) have "distinct (map srv_name (services (globals m)))"
    by blast
  with m have w1: "\<exists>m. reachable m \<and> services (globals m) = [\<lparr>srv_name = ?ab, srv_cc = 0\<rparr>] \<and>
        distinct (map srv_name (services (globals m)))" by blast
  have "\<exists>s'. handle_msg_register_req 1 example_register = Inr s'"
    by (simp add: handle_msg_register_req_def create_and_send_msg_def deref_def copy_bytes_def
        encode_header_def encode_u32_def example_register_def new_connection_def Let_def
        initial_daemon_def)
  then obtain s' where e1: "handle_msg_register_req 1 example_register = Inr s'" by blast
  from registry_exclusive [where c = 1 and s = example_register and s' = s' and cc = cc] e1 c1
  have "services s' = [\<lparr>srv_name = ?ab, srv_cc = 1\<rparr>] \<and>
        offered 1 (encode_header 1 0 MSG_REGISTER_RES @ [MSG_SUCCESS]) example_register s'"
    by (simp add: sv q)
  then have w2: "\<exists>s'. handle_msg_register_req 1 example_register = Inr s' \<and>
        services s' = [\<lparr>srv_name = ?ab, srv_cc = 1\<rparr>] \<and>
        take 1 (sys_write_log s') = [(5, [1, 0, 0, 0, 0, 0, 0, 0, 2, 1])]"
    using e1 unfolding offered_def c1 option.case by (auto simp: q sv hdr)
  have "\<exists>s'. handle_msg_register_req 1 s2 = Inr s'"
    by (simp add: handle_msg_register_req_def create_and_send_msg_def deref_def copy_bytes_def
        encode_header_def encode_u32_def example_register_def new_connection_def Let_def s2_def
        initial_daemon_def)
  then obtain s'' where e2: "handle_msg_register_req 1 s2 = Inr s''" by blast
  from registry_exclusive [where c = 1 and s = s2 and s' = s'' and cc = cc] e2 c2
  have "services s'' = [\<lparr>srv_name = ?ab, srv_cc = 1\<rparr>] \<and>
        offered 1 (encode_header 1 0 MSG_REGISTER_RES @ [MSG_FAIL]) s2 s''"
    by (simp add: sv q)
  then have w3: "\<exists>s'. handle_msg_register_req 1 s2 = Inr s' \<and>
        services s' = [\<lparr>srv_name = ?ab, srv_cc = 1\<rparr>] \<and>
        take 1 (sys_write_log s') = [(5, [1, 0, 0, 0, 0, 0, 0, 0, 2, 0])]"
    using e2 unfolding offered_def c2 option.case by (auto simp: q sv hdr)
  have "\<exists>t'. handle_pkt_connect 7 ?ab 2 example_on_demand = Inr t'"
    by (simp add: handle_pkt_connect_def find_channel_def associate_and_notify_def
        create_and_send_msg_def deref_def copy_bytes_def encode_header_def encode_u32_def
        example_on_demand_def new_connection_def Let_def initial_daemon_def modify_def)
  then obtain t' where e3: "handle_pkt_connect 7 ?ab 2 example_on_demand = Inr t'" by blast
  have od: "services example_on_demand = []" "next_ptr example_on_demand = 0"
    by (simp_all add: example_on_demand_def initial_daemon_def)
  from registry_exclusive [where cid = 7 and data = ?ab and plen = 2
      and t = example_on_demand and t' = t'] e3
  have "services t' = [] \<or> services t' = [\<lparr>srv_name = ?ab, srv_cc = 1\<rparr>]"
    by (auto simp add: od)
  moreover have "services t' \<noteq> []"
    using e3
    by (auto simp add: handle_pkt_connect_def find_channel_def
        example_on_demand_def Let_def initial_daemon_def
        dest!: associate_and_notify_services)
  ultimately have w4: "\<exists>t'. handle_pkt_connect 7 ?ab 2 example_on_demand = Inr t' \<and>
        services t' = [\<lparr>srv_name = ?ab, srv_cc = 1\<rparr>]"
    using e3 by blast
  show ?thesis using w1 w2 w3 w4 unfolding s2_def by (intro conjI)
qed




text \<open>
  C6, as the claim has it, fails.  In \<open>example_stream\<close> the client on the descriptor 5 has an
  empty message queue, so \<^verbatim>\<open>create_and_send_msg\<close> writes at once.  When this \<^verbatim>\<open>write\<close> fails
  with \<^verbatim>\<open>ECONNRESET\<close>, the function returns and the message is lost, but the connection is
  neither closed nor removed: it is still in the list, no descriptor has been closed, and
  its channel is still associated with it.
\<close>

theorem write_reset_leaves_connection:
  "create_and_send_msg 1 MSG_DATA 1 (Some [1, 2, 3]) 3
     (example_stream\<lparr>sys_write := [WriteError ECONNRESET]\<rparr>)
     = Inr (example_stream
              \<lparr>sys_write := [],
               sys_write_log := [(5, [3, 0, 0, 0, 1, 0, 0, 0, 11, 1, 2, 3])]\<rparr>) \<and>
   map fst (connections example_stream) = [1] \<and>
   sys_close_log example_stream = [] \<and>
   map (\<lambda>x. association (snd x)) (channels example_stream) = [Some 1]"
  by (simp add: create_and_send_msg_def deref_def copy_bytes_def encode_header_def
      encode_u32_def example_stream_def new_connection_def initial_daemon_def Let_def)

text \<open>
  C6, amended.  Let the client \<open>c\<close> be connected, and let the writes to come take \<open>ns\<close> bytes
  and then fail with the error \<open>e\<close>.

  In \<^verbatim>\<open>create_and_send_msg\<close>, with nothing queued for the client and writes that leave
  some of the message unwritten: when \<open>e\<close> is \<^verbatim>\<open>ECONNRESET\<close> the function returns, and the
  state differs from the one before in the log and the script of the writes alone, so the
  message is dropped and the connection is left open and in place; when \<open>e\<close> is another
  error than \<^verbatim>\<open>EAGAIN\<close>, \<^verbatim>\<open>EWOULDBLOCK\<close> and \<^verbatim>\<open>ECONNRESET\<close>, the process exits.

  In the loop under \<^verbatim>\<open>EPOLLOUT\<close> of \<^verbatim>\<open>handle_client_connection_event\<close>, with writes that leave
  a message in the queue of the client: when \<open>e\<close> is \<^verbatim>\<open>ECONNRESET\<close> and the handler returns,
  the connection is closed and removed and its channels are reset and dissociated
  (\<open>closed_and_removed\<close>), and the handler does return when the channels of the client can
  be reset (\<open>channel_ready\<close>); when \<open>e\<close> is another error than the three, the process
  exits.  The same holds of the loop itself, \<open>drain_loop\<close>, from whatever state it is
  entered.
\<close>

theorem write_failure:
  assumes "map_of (connections s) c = Some cc"
    and "sys_write s = map Written ns @ WriteError e # rs"
  shows "(message_queue cc = [] \<and> 0 \<le> l \<and> copy_bytes d (nat l) = Inr bytes \<and>
          int (sum_list ns) < 9 + l \<longrightarrow>
            (e = ECONNRESET \<longrightarrow>
               (\<exists>log. create_and_send_msg c t sid d l s =
                        Inr (s\<lparr>sys_write := rs, sys_write_log := sys_write_log s @ log\<rparr>))) \<and>
            (e \<noteq> EAGAIN \<and> e \<noteq> EWOULDBLOCK \<and> e \<noteq> ECONNRESET \<longrightarrow>
               create_and_send_msg c t sid d l s = Inl Exit)) \<and>
         (after_writes ns (message_queue cc) = Some (mb # mq) \<and>
          \<not> EPOLLERR ev \<and> \<not> EPOLLIN ev \<and> EPOLLOUT ev \<longrightarrow>
            (e = ECONNRESET \<longrightarrow>
               (\<forall>s'. handle_client_connection_event c ev s = Inr s' \<longrightarrow>
                       closed_and_removed c cc s s' \<and> sys_write s' = rs) \<and>
               (list_all (channel_ready s) (associations cc) \<longrightarrow>
                  (\<exists>s'. handle_client_connection_event c ev s = Inr s'))) \<and>
            (e \<noteq> EAGAIN \<and> e \<noteq> EWOULDBLOCK \<and> e \<noteq> ECONNRESET \<longrightarrow>
               handle_client_connection_event c ev s = Inl Exit)) \<and>
         (after_writes ns (message_queue cc) = Some (mb # mq) \<longrightarrow>
            (e = ECONNRESET \<longrightarrow>
               (\<forall>rs' s'. drain_loop c (sys_write s) s = Inr (rs', s') \<longrightarrow>
                          rs' = rs \<and> closed_and_removed c cc s s')) \<and>
            (e \<noteq> EAGAIN \<and> e \<noteq> EWOULDBLOCK \<and> e \<noteq> ECONNRESET \<longrightarrow>
               drain_loop c (sys_write s) s = Inl Exit))"
proof (intro conjI impI allI)
  assume a: "message_queue cc = [] \<and> 0 \<le> l \<and> copy_bytes d (nat l) = Inr bytes \<and>
          int (sum_list ns) < 9 + l"
  then have q: "message_queue cc = []" and l: "0 \<le> l" and b: "copy_bytes d (nat l) = Inr bytes"
    and n: "int (sum_list ns) < 9 + l" by simp_all
  note r = create_and_send_msg_error [OF assms(1) q l b n assms(2)]
  show "\<exists>log. create_and_send_msg c t sid d l s =
                        Inr (s\<lparr>sys_write := rs, sys_write_log := sys_write_log s @ log\<rparr>)"
    if "e = ECONNRESET" using that by (rule r(1))
  show "create_and_send_msg c t sid d l s = Inl Exit"
    if "e \<noteq> EAGAIN \<and> e \<noteq> EWOULDBLOCK \<and> e \<noteq> ECONNRESET"
    using that by (intro r(2)) simp_all
next
  assume a: "after_writes ns (message_queue cc) = Some (mb # mq) \<and>
          \<not> EPOLLERR ev \<and> \<not> EPOLLIN ev \<and> EPOLLOUT ev"
  then have aw: "after_writes ns (message_queue cc) = Some (mb # mq)"
    and ev: "\<not> EPOLLERR ev" "\<not> EPOLLIN ev" "EPOLLOUT ev" by simp_all
  note r = handle_client_connection_event_write_error [OF assms(1) aw assms(2) ev]
  show "closed_and_removed c cc s s'"
    if "e = ECONNRESET" "handle_client_connection_event c ev s = Inr s'" for s'
    using r(1) [OF that] by simp
  show "sys_write s' = rs"
    if "e = ECONNRESET" "handle_client_connection_event c ev s = Inr s'" for s'
    using r(1) [OF that] by simp
  show "\<exists>s'. handle_client_connection_event c ev s = Inr s'"
    if "e = ECONNRESET" "list_all (channel_ready s) (associations cc)"
    using that by (rule r(2))
  show "handle_client_connection_event c ev s = Inl Exit"
    if "e \<noteq> EAGAIN \<and> e \<noteq> EWOULDBLOCK \<and> e \<noteq> ECONNRESET"
    using that by (intro r(3)) simp_all
next
  assume aw: "after_writes ns (message_queue cc) = Some (mb # mq)"
  from drain_loop_error [OF assms(1) aw, of e rs] obtain s0 cc0 where
    d: "drain_loop c (sys_write s) s =
             (if e = EAGAIN \<or> e = EWOULDBLOCK then Inr (rs, s0)
              else if e = ECONNRESET
              then bindE (close_and_remove_connection c s0) (\<lambda>s1. Inr (rs, s1))
              else Inl Exit)"
    and c0: "map_of (connections s0) c = Some cc0"
    and same: "fd cc0 = fd cc" "associations cc0 = associations cc"
      "filter (\<lambda>x. fst x \<noteq> c) (connections s0) = filter (\<lambda>x. fst x \<noteq> c) (connections s)"
      "sys_close_log s0 = sys_close_log s" "services s0 = services s"
    unfolding assms(2) by blast
  have cl: "rs' = rs \<and> closed_and_removed c cc s s'"
    if "e = ECONNRESET" "drain_loop c (sys_write s) s = Inr (rs', s')" for rs' s'
  proof -
    from that have cl: "close_and_remove_connection c s0 = Inr s'" and r: "rs' = rs"
      unfolding d by (auto simp: bindE_eq_Inr)
    have "closed_and_removed c cc0 s0 s'" by (rule close_and_remove_connection_spec [OF cl c0])
    moreover have "closed_and_removed c cc0 s0 s' = closed_and_removed c cc s s'"
      by (rule closed_and_removed_cong [OF same])
    ultimately show ?thesis using r by simp
  qed
  show "rs' = rs" if "e = ECONNRESET" "drain_loop c (sys_write s) s = Inr (rs', s')" for rs' s'
    using cl [OF that] by simp
  show "closed_and_removed c cc s s'"
    if "e = ECONNRESET" "drain_loop c (sys_write s) s = Inr (rs', s')" for rs' s'
    using cl [OF that] by simp
  show "drain_loop c (sys_write s) s = Inl Exit"
    if "e \<noteq> EAGAIN \<and> e \<noteq> EWOULDBLOCK \<and> e \<noteq> ECONNRESET"
    using that unfolding d by simp
qed

text \<open>
  The theorem at \<open>example_queued\<close>: the first write takes four of the nine bytes that are
  queued, the second fails with \<^verbatim>\<open>ECONNRESET\<close>; the handler returns, the descriptor 5 is
  closed, no connection is left, and the channel 7 has no client and a \<^verbatim>\<open>PKT_RESET\<close> to
  send.  With another error in place of \<^verbatim>\<open>ECONNRESET\<close> the process exits.  At
  \<open>example_stream\<close>, where nothing is queued, \<^verbatim>\<open>create_and_send_msg\<close> for a message of twelve
  bytes writes five and then, on \<^verbatim>\<open>ECONNRESET\<close>, returns with the connection in place, and
  exits on another error.
\<close>

theorem write_failure_witness:
  "(\<exists>s'. handle_client_connection_event 1 \<lparr>EPOLLERR = False, EPOLLIN = False, EPOLLOUT = True\<rparr>
           example_queued = Inr s' \<and>
        connections s' = [] \<and> sys_close_log s' = [5] \<and> sys_write s' = [] \<and>
        map_option association (map_of (channels s') 0) = Some None \<and>
        map_option packet_queue (map_of (channels s') 0)
          = Some [\<lparr>pb_type = PKT_RESET, pb_data = []\<rparr>] \<and>
        0 \<in> set (send_queue s')) \<and>
   handle_client_connection_event 1 \<lparr>EPOLLERR = False, EPOLLIN = False, EPOLLOUT = True\<rparr>
     (example_queued\<lparr>sys_write := [Written 4, WriteError EOTHER]\<rparr>) = Inl Exit \<and>
   (\<exists>log. create_and_send_msg 1 MSG_DATA 1 (Some [1, 2, 3]) 3
            (example_stream\<lparr>sys_write := [Written 5, WriteError ECONNRESET]\<rparr>)
          = Inr (example_stream\<lparr>sys_write := [], sys_write_log := log\<rparr>)) \<and>
   create_and_send_msg 1 MSG_DATA 1 (Some [1, 2, 3]) 3
     (example_stream\<lparr>sys_write := [Written 5, WriteError EOTHER]\<rparr>) = Inl Exit"
proof -
  let ?ev = "\<lparr>EPOLLERR = False, EPOLLIN = False, EPOLLOUT = True\<rparr>"
  let ?mb = "\<lparr>mb_pos = 0, mb_data = [0, 0, 0, 0, 1, 0, 0, 0, 12 :: uint8_t]\<rparr>"
  define cc where "cc = (new_connection 5)
                 \<lparr>next_stream_id := 3, message_queue := [?mb], associations := [0]\<rparr>"
  define cs where "cs = snd (hd (connections example_stream))"
  define s2 where "s2 = example_queued\<lparr>sys_write := [Written 4, WriteError EOTHER]\<rparr>"
  define s3 where "s3 = example_stream\<lparr>sys_write := [Written 5, WriteError ECONNRESET]\<rparr>"
  define s4 where "s4 = example_stream\<lparr>sys_write := [Written 5, WriteError EOTHER]\<rparr>"
  have c1: "map_of (connections example_queued) 1 = Some cc"
    "map_of (connections s2) 1 = Some cc"
    by (simp_all add: example_queued_def cc_def s2_def)
  have c3: "map_of (connections s3) 1 = Some cs" "map_of (connections s4) 1 = Some cs"
    by (simp_all add: s3_def s4_def cs_def example_stream_def)
  have w1: "sys_write example_queued = map Written [4] @ WriteError ECONNRESET # []"
    and w2: "sys_write s2 = map Written [4] @ WriteError EOTHER # []"
    and w3: "sys_write s3 = map Written [5] @ WriteError ECONNRESET # []"
    and w4: "sys_write s4 = map Written [5] @ WriteError EOTHER # []"
    by (simp_all add: example_queued_def s2_def s3_def s4_def)
  have aw: "after_writes [4] (message_queue cc) = Some (?mb\<lparr>mb_pos := 4\<rparr> # [])"
    by (simp add: cc_def)
  have as: "associations cc = [0]" "fd cc = 5" by (simp_all add: cc_def new_connection_def)
  have rdy: "list_all (channel_ready example_queued) (associations cc)"
    by (simp add: as channel_ready_def example_queued_def example_stream_def example_channel_def)
  have q: "message_queue cs = []"
    by (simp add: cs_def example_stream_def new_connection_def)
  have cp: "copy_bytes (Some [1, 2, 3 :: uint8_t]) (nat 3) = Inr [1, 2, 3]"
    by (simp add: copy_bytes_def)
  have f: "services example_queued = []" "sys_close_log example_queued = []"
    "connections example_queued = [(1, cc)]"
    "sys_write_log example_stream = []"
    by (simp_all add: example_queued_def example_stream_def initial_daemon_def cc_def)
  note t1 = write_failure [OF c1(1) w1, where mb = "?mb\<lparr>mb_pos := 4\<rparr>" and mq = "[]" and ev = ?ev
      and l = 0 and d = None and bytes = "[]" and t = 0 and sid = 0]
  from t1 aw rdy obtain s' where
    r: "handle_client_connection_event 1 ?ev example_queued = Inr s'" by auto
  with t1 aw have cl: "closed_and_removed 1 cc example_queued s'" and sw: "sys_write s' = []"
    by auto
  from cl have a1: "connections s' = []" "sys_close_log s' = [5]" "channel_reset s' 0"
    by (simp_all add: closed_and_removed_def as f)
  from a1(3) have a2: "map_option association (map_of (channels s') 0) = Some None"
    "map_option packet_queue (map_of (channels s') 0)
          = Some [\<lparr>pb_type = PKT_RESET, pb_data = []\<rparr>]"
    "0 \<in> set (send_queue s')"
    by (auto simp: channel_reset_def split: option.splits)
  have x1: "\<exists>s'. handle_client_connection_event 1 ?ev example_queued = Inr s' \<and>
        connections s' = [] \<and> sys_close_log s' = [5] \<and> sys_write s' = [] \<and>
        map_option association (map_of (channels s') 0) = Some None \<and>
        map_option packet_queue (map_of (channels s') 0)
          = Some [\<lparr>pb_type = PKT_RESET, pb_data = []\<rparr>] \<and>
        0 \<in> set (send_queue s')"
    by (rule exI [of _ s']) (intro conjI r a1(1,2) sw a2)
  from write_failure [OF c1(2) w2, where mb = "?mb\<lparr>mb_pos := 4\<rparr>" and mq = "[]" and ev = ?ev
      and l = 0 and d = None and bytes = "[]" and t = 0 and sid = 0] aw
  have x2: "handle_client_connection_event 1 ?ev s2 = Inl Exit" by simp
  from write_failure [OF c3(1) w3, where l = 3 and d = "Some [1, 2, 3]" and bytes = "[1, 2, 3]"
      and t = MSG_DATA and sid = 1 and mb = ?mb and mq = "[]" and ev = ?ev] q cp
  have x3: "\<exists>log. create_and_send_msg 1 MSG_DATA 1 (Some [1, 2, 3]) 3 s3
          = Inr (example_stream\<lparr>sys_write := [], sys_write_log := log\<rparr>)"
    by (auto simp: f s3_def)
  from write_failure [OF c3(2) w4, where l = 3 and d = "Some [1, 2, 3]" and bytes = "[1, 2, 3]"
      and t = MSG_DATA and sid = 1 and mb = ?mb and mq = "[]" and ev = ?ev] q cp
  have x4: "create_and_send_msg 1 MSG_DATA 1 (Some [1, 2, 3]) 3 s4 = Inl Exit"
    by simp
  show ?thesis using x1 x2 x3 x4 unfolding s2_def s3_def s4_def by (intro conjI)
qed




end
